theory Spec2Isabelle
  imports Complex_Main "HOL-Library.FSet" "HOL-Library.AList" "HOL-Library.Multiset"
    "HOL-Library.Product_Lexorder"
begin

section \<open>Data model\<close>

text \<open>
  The two notebooks are Python. A gene set is a Python \<^verbatim>\<open>set\<close> of strings, hence a finite
  set. A gene-set library is a Python \<^verbatim>\<open>dict\<close> from term name to gene set: an association
  list in insertion order whose keys are distinct; iterating the dict visits the entries
  in list order. Python integers are unbounded (\<^typ>\<open>int\<close>). The true division
  \<^verbatim>\<open>a/(a+b+c)\<close> of two Python integers, and the p- and q-values, are floating-point
  numbers in the source; here they are exact rationals, so rounding is not modelled.
  Strings are \<^typ>\<open>string\<close>, that is, code points below 256.
\<close>

type_synonym geneset = "string fset"

type_synonym gmt = "(string \<times> geneset) list"

text \<open>The exceptions. \<open>PandasValueError\<close> is a \<^verbatim>\<open>ValueError\<close> raised inside pandas; its message
  differs between versions of pandas and is not modelled.\<close>

datatype error =
    ValueError string
  | ZeroDivisionError
  | FisherError
  | KeyError
  | PandasValueError

definition keys :: "('k \<times> 'v) list \<Rightarrow> 'k list" where
  "keys d = map fst d"

definition dict_values :: "('k \<times> 'v) list \<Rightarrow> 'v list" where
  "dict_values d = map snd d"

text \<open>\<^verbatim>\<open>d[k] = v\<close>: an existing key keeps its position and gets the new value, a new key
  goes to the end.\<close>

definition dict_set :: "('k \<times> 'v) list \<Rightarrow> 'k \<Rightarrow> 'v \<Rightarrow> ('k \<times> 'v) list" where
  "dict_set d k v = AList.update k v d"

section \<open>Strings: \<^verbatim>\<open>str.strip\<close> and \<^verbatim>\<open>str.split\<close>\<close>

abbreviation tab :: char where
  "tab \<equiv> CHR 0x09"

text \<open>The code points below 256 that Python's \<^verbatim>\<open>str.isspace\<close> accepts.\<close>

definition isspace :: "char \<Rightarrow> bool" where
  "isspace c = (of_char c \<in> {9, 10, 11, 12, 13, 28, 29, 30, 31, 32, 133, 160 :: nat})"

definition strip :: "string \<Rightarrow> string" where
  "strip s = rev (dropWhile isspace (rev (dropWhile isspace s)))"

text \<open>\<^verbatim>\<open>s.split(sep)\<close> for a one-character separator: every occurrence of the separator
  ends a field, so the result is never empty and may hold empty fields. The second
  argument is the field being read, reversed.\<close>

fun split_from :: "char \<Rightarrow> string \<Rightarrow> string \<Rightarrow> string list" where
  "split_from sep cur [] = [rev cur]"
| "split_from sep cur (c # cs) =
     (if c = sep then rev cur # split_from sep [] cs else split_from sep (c # cur) cs)"

definition split :: "char \<Rightarrow> string \<Rightarrow> string list" where
  "split sep s = split_from sep [] s"

section \<open>\<^verbatim>\<open>load_gmt\<close>\<close>

text \<open>
  \<^verbatim>\<open>
  def load_gmt(file):
      gmt = {}
      for line in file:
          term, description, *geneset = line.strip().split('\t')
          gmt[term] = set(geneset)
      return gmt
  \<close>
  The starred unpacking needs at least two fields; with fewer it raises
  \<^verbatim>\<open>ValueError\<close> with a fixed message, and the exception leaves the function.
\<close>

definition split_line :: "string \<Rightarrow> string list" where
  "split_line line = split tab (strip line)"

fun load_gmt_loop :: "gmt \<Rightarrow> string list \<Rightarrow> error + gmt" where
  "load_gmt_loop gmt [] = Inr gmt"
| "load_gmt_loop gmt (line # file) =
     (case split_line line of
        [] \<Rightarrow> Inl (ValueError ''not enough values to unpack (expected at least 2, got 0)'')
      | [x] \<Rightarrow> Inl (ValueError ''not enough values to unpack (expected at least 2, got 1)'')
      | term # description # geneset \<Rightarrow>
          load_gmt_loop (dict_set gmt term (fset_of_list geneset)) file)"

definition load_gmt :: "string list \<Rightarrow> error + gmt" where
  "load_gmt file = load_gmt_loop [] file"


section \<open>The pairwise Jaccard and Fisher loop\<close>

text \<open>
  \<^verbatim>\<open>
  genes = set()
  for geneset in ds1.values():
      genes.update(geneset)
  for geneset in ds2.values():
      genes.update(geneset)
  genes = len(genes)
  \<close>
\<close>

definition universe :: "gmt \<Rightarrow> gmt \<Rightarrow> geneset" where
  "universe ds1 ds2 =
     fold (\<lambda>geneset genes. genes |\<union>| geneset) (dict_values ds2)
       (fold (\<lambda>geneset genes. genes |\<union>| geneset) (dict_values ds1) {||})"

definition genes_count :: "gmt \<Rightarrow> gmt \<Rightarrow> int" where
  "genes_count ds1 ds2 = int (fcard (universe ds1 ds2))"

text \<open>A data frame with row labels, column labels and one number per cell;
  \<^verbatim>\<open>pd.DataFrame(0, index=..., columns=...)\<close> fills every cell with 0 and
  \<^verbatim>\<open>df.loc[i,j] = v\<close> overwrites one cell.\<close>

record dataframe =
  index :: "string list"
  columns :: "string list"
  cells :: "string \<times> string \<Rightarrow> rat"

definition DataFrame0 :: "string list \<Rightarrow> string list \<Rightarrow> dataframe" where
  "DataFrame0 idx cols = \<lparr>index = idx, columns = cols, cells = (\<lambda>_. 0)\<rparr>"

definition loc_set :: "dataframe \<Rightarrow> string \<Rightarrow> string \<Rightarrow> rat \<Rightarrow> dataframe" where
  "loc_set df i j v = df\<lparr>cells := (cells df)((i, j) := v)\<rparr>"

record overlap =
  jaccard :: dataframe
  fisherp :: dataframe
  intersect :: "string \<times> string \<rightharpoonup> geneset"

text \<open>\<^verbatim>\<open>set.difference(s, *others)\<close>: the elements of \<open>s\<close> that are in none of the others.
  The source calls it through the class, \<^verbatim>\<open>set.difference(iset)\<close>, so \<open>iset\<close> is the
  receiver and there are no others.\<close>

definition difference :: "geneset \<Rightarrow> geneset list \<Rightarrow> geneset" where
  "difference s others = fold (\<lambda>other acc. acc |-| other) others s"

text \<open>
  \<^verbatim>\<open>
  intersection = iset.intersection(jset)
  a = len(intersection)
  b = len(iset.difference(jset))
  c = len(set.difference(iset))
  d = genes - a - b - c
  \<close>
\<close>

definition contingency :: "int \<Rightarrow> geneset \<Rightarrow> geneset \<Rightarrow> int \<times> int \<times> int \<times> int" where
  "contingency genes iset jset =
     (let intersection = iset |\<inter>| jset;
          a = int (fcard intersection);
          b = int (fcard (difference iset [jset]));
          c = int (fcard (difference iset []));
          d = genes - a - b - c
      in (a, b, c, d))"

text \<open>Python's \<^verbatim>\<open>x / y\<close> on integers raises \<^verbatim>\<open>ZeroDivisionError\<close> when \<open>y\<close> is 0.\<close>

definition true_div :: "int \<Rightarrow> int \<Rightarrow> error + rat" where
  "true_div x y = (if y = 0 then Inl ZeroDivisionError else Inr (of_int x / of_int y))"

text \<open>The value assigned to \<^verbatim>\<open>jaccard.loc[i,j]\<close>: \<^verbatim>\<open>a/(a+b+c)\<close>.\<close>

definition jaccard_value :: "geneset \<Rightarrow> geneset \<Rightarrow> error + rat" where
  "jaccard_value iset jset =
     (case contingency 0 iset jset of (a, b, c, d) \<Rightarrow> true_div a (a + b + c))"

text \<open>
  The body of the inner loop. \<^verbatim>\<open>fisher.pvalue(a, b, c, d).two_tail\<close> belongs to an
  external package: it is the parameter \<open>pvalue\<close>, which may raise.
  \<^verbatim>\<open>
  jaccard.loc[i,j] = a/(a+b+c)
  fisherp.loc[i,j] = fisher.pvalue(a, b, c, d).two_tail
  intersect[i,j] = intersection
  \<close>
\<close>

type_synonym two_tail = "int \<Rightarrow> int \<Rightarrow> int \<Rightarrow> int \<Rightarrow> error + rat"

definition pair_step ::
  "two_tail \<Rightarrow> int \<Rightarrow> string \<times> geneset \<Rightarrow> string \<times> geneset \<Rightarrow> overlap \<Rightarrow> error + overlap" where
  "pair_step pvalue genes ie je st =
     (case ie of (i, iset) \<Rightarrow> case je of (j, jset) \<Rightarrow>
      case contingency genes iset jset of (a, b, c, d) \<Rightarrow>
      case true_div a (a + b + c) of
        Inl e \<Rightarrow> Inl e
      | Inr jv \<Rightarrow>
          (case pvalue a b c d of
             Inl e \<Rightarrow> Inl e
           | Inr p \<Rightarrow>
               Inr (st\<lparr>jaccard := loc_set (jaccard st) i j jv,
                       fisherp := loc_set (fisherp st) i j p,
                       intersect := (intersect st)((i, j) \<mapsto> iset |\<inter>| jset)\<rparr>)))"

fun inner_loop ::
  "two_tail \<Rightarrow> int \<Rightarrow> string \<times> geneset \<Rightarrow> gmt \<Rightarrow> overlap \<Rightarrow> error + overlap" where
  "inner_loop pvalue genes ie [] st = Inr st"
| "inner_loop pvalue genes ie (je # ds2) st =
     (case pair_step pvalue genes ie je st of
        Inl e \<Rightarrow> Inl e
      | Inr st' \<Rightarrow> inner_loop pvalue genes ie ds2 st')"

fun outer_loop :: "two_tail \<Rightarrow> int \<Rightarrow> gmt \<Rightarrow> gmt \<Rightarrow> overlap \<Rightarrow> error + overlap" where
  "outer_loop pvalue genes [] ds2 st = Inr st"
| "outer_loop pvalue genes (ie # ds1) ds2 st =
     (case inner_loop pvalue genes ie ds2 st of
        Inl e \<Rightarrow> Inl e
      | Inr st' \<Rightarrow> outer_loop pvalue genes ds1 ds2 st')"

definition overlap_loop :: "two_tail \<Rightarrow> gmt \<Rightarrow> gmt \<Rightarrow> error + overlap" where
  "overlap_loop pvalue ds1 ds2 =
     outer_loop pvalue (genes_count ds1 ds2) ds1 ds2
       \<lparr>jaccard = DataFrame0 (keys ds1) (keys ds2),
        fisherp = DataFrame0 (keys ds1) (keys ds2),
        intersect = Map.empty\<rparr>"

section \<open>The result tables of the set-overlap notebook\<close>

text \<open>
  These cells are calls into pandas, modelled on lists of rows. A row is keyed by the
  pair of term names. \<^verbatim>\<open>df.stack()\<close> lists the cells row by row. The sorts of pandas do
  not say in which order rows with equal keys come out; the stable \<^const>\<open>sort_key\<close>
  stands for them, and no property below depends on that order.
\<close>

type_synonym pair = "string \<times> string"

definition stack :: "dataframe \<Rightarrow> (pair \<times> rat) list" where
  "stack df = [((i, j), cells df (i, j)). i \<leftarrow> index df, j \<leftarrow> columns df]"

text \<open>\<^verbatim>\<open>jtop = jaccard.stack().sort_values(ascending=False).to_frame('Jaccard')\<close>\<close>

definition jtop :: "dataframe \<Rightarrow> (pair \<times> rat) list" where
  "jtop df = sort_key (\<lambda>(k, v). - v) (stack df)"

text \<open>\<^verbatim>\<open>Series.rank()\<close> with its defaults (ascending, \<^verbatim>\<open>method='average'\<close>): the values
  are put in ascending order and their places are numbered from 1; the rank of a value
  is the average of the numbers of the places where it stands.\<close>

definition places :: "rat list \<Rightarrow> rat \<Rightarrow> nat list" where
  "places ps v = map (Suc \<circ> fst) (filter (\<lambda>(i, x). x = v) (enumerate 0 (sort ps)))"

definition rank :: "rat list \<Rightarrow> rat \<Rightarrow> rat" where
  "rank ps v = of_nat (sum_list (places ps v)) / of_nat (length (places ps v))"

text \<open>
  \<^verbatim>\<open>
  ftop = fisherp.stack().to_frame('p')
  ftop['q'] = ftop['p']*ftop.shape[0]/ftop['p'].rank()
  ftop = ftop.sort_values('q')
  \<close>
\<close>

definition ftop :: "dataframe \<Rightarrow> (pair \<times> rat \<times> rat) list" where
  "ftop df =
     (let frame = stack df;
          ps = map snd frame;
          frame = map (\<lambda>(k, p). (k, p, p * of_nat (length frame) / rank ps p)) frame
      in sort_key (\<lambda>(k, p, q). q) frame)"

text \<open>\<^verbatim>\<open>pd.concat([jtop,ftop], axis=1)\<close> puts side by side the rows of the two frames that
  have the same key. Both frames are stacks over the same row and column labels, so
  every key of one is a key of the other and no cell is left missing.\<close>

definition concat_axis1 ::
  "(pair \<times> rat) list \<Rightarrow> (pair \<times> rat \<times> rat) list \<Rightarrow> (pair \<times> rat \<times> rat \<times> rat) list" where
  "concat_axis1 js fs = [(k, jv, p, q). (k, jv) \<leftarrow> js, (k', p, q) \<leftarrow> fs, k' = k]"

text \<open>\<^verbatim>\<open>sep.join(xs)\<close>\<close>

fun join :: "string \<Rightarrow> string list \<Rightarrow> string" where
  "join sep [] = []"
| "join sep [x] = x"
| "join sep (x # y # ys) = x @ sep @ join sep (y # ys)"

text \<open>
  \<^verbatim>\<open>
  top = pd.concat([jtop,ftop], axis=1).sort_values(['Jaccard','q'],
            ascending=[False,True])[:1000].reset_index()
  top['intersect'] = top.apply(lambda x: ','.join(intersect[x['Dataset 1 Attribute'],
            x['Dataset 2 Attribute']]), axis=1)
  \<close>
  The variable \<^verbatim>\<open>top\<close> is \<open>top_table\<close>; its rows before the last assignment are
  \<open>top_rows\<close>.
\<close>

definition top_rows :: "overlap \<Rightarrow> (pair \<times> rat \<times> rat \<times> rat) list" where
  "top_rows st =
     take 1000 (sort_key (\<lambda>(k, jv, p, q). (- jv, q))
       (concat_axis1 (jtop (jaccard st)) (ftop (fisherp st))))"

text \<open>The function applied to a row:
  \<^verbatim>\<open>lambda x: ','.join(intersect[x['Dataset 1 Attribute'], x['Dataset 2 Attribute']])\<close>.
  The lookup raises \<^verbatim>\<open>KeyError\<close> on a missing key. Python does not fix the order in which
  a set is iterated, and the order belongs to the set object, not to its value:
  \<open>iter k s\<close> is the order in which the set stored under the key \<open>k\<close>, whose value is
  \<open>s\<close>, is iterated.\<close>

definition intersect_genes ::
  "(pair \<Rightarrow> geneset \<Rightarrow> string list) \<Rightarrow> (pair \<rightharpoonup> geneset) \<Rightarrow> pair \<times> rat \<times> rat \<times> rat
     \<Rightarrow> error + string" where
  "intersect_genes iter isects r =
     (case r of (k, jv, p, q) \<Rightarrow>
        (case isects k of
           None \<Rightarrow> Inl KeyError
         | Some s \<Rightarrow> Inr (join '','' (iter k s))))"

text \<open>\<^verbatim>\<open>DataFrame.apply(f, axis=1)\<close>. On a frame with rows it returns the Series of the
  results, row by row, and an exception of \<open>f\<close> leaves the call. On a frame without
  rows pandas tries \<open>f\<close> on one row of missing values, ignores the exception this
  raises, and returns a copy of the frame itself.\<close>

datatype applied = Frame | Series "string list"

fun apply_rows :: "('r \<Rightarrow> error + string) \<Rightarrow> 'r list \<Rightarrow> error + string list" where
  "apply_rows f [] = Inr []"
| "apply_rows f (r # rows) =
     (case f r of
        Inl e \<Rightarrow> Inl e
      | Inr g \<Rightarrow>
          (case apply_rows f rows of
             Inl e \<Rightarrow> Inl e
           | Inr gs \<Rightarrow> Inr (g # gs)))"

definition apply_axis1 :: "('r \<Rightarrow> error + string) \<Rightarrow> 'r list \<Rightarrow> error + applied" where
  "apply_axis1 f rows =
     (if rows = [] then Inr Frame
      else (case apply_rows f rows of Inl e \<Rightarrow> Inl e | Inr gs \<Rightarrow> Inr (Series gs)))"

text \<open>\<^verbatim>\<open>top['intersect'] = value\<close>: a Series becomes the new column; a frame of several
  columns cannot be set as one column, and pandas raises \<^verbatim>\<open>ValueError\<close>.\<close>

definition set_intersect ::
  "(pair \<times> rat \<times> rat \<times> rat) list \<Rightarrow> applied
     \<Rightarrow> error + (pair \<times> rat \<times> rat \<times> rat \<times> string) list" where
  "set_intersect rows v =
     (case v of
        Frame \<Rightarrow> Inl PandasValueError
      | Series gs \<Rightarrow> Inr (map2 (\<lambda>(k, jv, p, q) g. (k, jv, p, q, g)) rows gs))"

definition top_table ::
  "(pair \<Rightarrow> geneset \<Rightarrow> string list) \<Rightarrow> overlap
     \<Rightarrow> error + (pair \<times> rat \<times> rat \<times> rat \<times> string) list" where
  "top_table iter st =
     (let rows = top_rows st
      in case apply_axis1 (intersect_genes iter (intersect st)) rows of
           Inl e \<Rightarrow> Inl e
         | Inr v \<Rightarrow> set_intersect rows v)"

section \<open>The symbol-remapping loop of the Reactome notebook\<close>

text \<open>
  \<^verbatim>\<open>
  dupes = df.shape[0]
  count = 0
  df = uf.map_symbols(df, symbol_lookup, remove_duplicates=True)

  while (dupes-df.shape[0]-count) != 0:
      df = uf.map_symbols(df, symbol_lookup, remove_duplicates=True)
      count = (dupes-df.shape[0])
  \<close>
  \<^verbatim>\<open>uf.map_symbols\<close> with its lookup table is the parameter \<open>map_symbols\<close>, and
  \<open>shape0\<close> reads the row count \<^verbatim>\<open>df.shape[0]\<close>. Nothing in the text of the loop
  bounds its iterations, so it is a partial function: \<open>None\<close> stands for a loop that
  never exits. The variable \<^verbatim>\<open>count\<close> is \<open>cnt\<close>.
\<close>

partial_function (option) remap_while ::
  "('df \<Rightarrow> 'df) \<Rightarrow> ('df \<Rightarrow> nat) \<Rightarrow> int \<Rightarrow> 'df \<Rightarrow> int \<Rightarrow> ('df \<times> int) option" where
  "remap_while map_symbols shape0 dupes df cnt =
     (if dupes - int (shape0 df) - cnt \<noteq> 0
      then (let df' = map_symbols df;
                cnt' = dupes - int (shape0 df')
            in remap_while map_symbols shape0 dupes df' cnt')
      else Some (df, cnt))"

declare remap_while.simps [code]

definition remap :: "('df \<Rightarrow> 'df) \<Rightarrow> ('df \<Rightarrow> nat) \<Rightarrow> 'df \<Rightarrow> ('df \<times> int) option" where
  "remap map_symbols shape0 df =
     (let dupes = int (shape0 df);
          cnt = 0;
          df = map_symbols df
      in remap_while map_symbols shape0 dupes df cnt)"

text \<open>Keeping the first of equal labels, in order.\<close>

definition keep_first :: "'a list \<Rightarrow> 'a list" where
  "keep_first xs = rev (remdups (rev xs))"

text \<open>Modelled from the spec: \<^verbatim>\<open>uf.map_symbols\<close> (module \<^verbatim>\<open>utility_functions\<close>) is not
  among the sources. The spec (4.1) says: for every row label, look up the canonical
  symbol; rows whose raw label is absent from the lookup are dropped; rows sharing a
  canonical symbol are merged afterwards. The notebook calls it with
  \<^verbatim>\<open>remove_duplicates=True\<close> and reports "keeping first instance of each". Only the row
  labels of the data frame are modelled.\<close>

definition mapSymbols :: "(string \<times> string) list \<Rightarrow> string list \<Rightarrow> string list" where
  "mapSymbols lookup labels = keep_first (List.map_filter (map_of lookup) labels)"

section \<open>The normalisation cells of the ABA notebook\<close>

text \<open>
  The functions of the module \<^verbatim>\<open>utility_functions\<close> (imported as \<^verbatim>\<open>uf\<close>) are not among
  the sources; the notebook only calls them. They are the fields of a record, over any
  type \<open>'m\<close> of matrices.
\<close>

record 'm uf =
  remove_impute :: "'m \<Rightarrow> 'm"
  log2 :: "'m \<Rightarrow> 'm"
  quantile_normalize :: "'m \<Rightarrow> 'm"
  zscore :: "'m \<Rightarrow> 'm"
  standardized_matrix :: "'m \<Rightarrow> 'm"
  ternary_matrix :: "'m \<Rightarrow> 'm"

text \<open>The three variables the cells assign.\<close>

record 'm notebook =
  matrix :: 'm
  standard_matrix :: 'm
  ternary_matrix :: 'm

text \<open>
  The cells between the merge of duplicates and the set libraries, in notebook order;
  the cells left out plot, save and build the gene and attribute lists, and assign none
  of the three variables.
  \<^verbatim>\<open>
  matrix = uf.remove_impute(matrix)
  matrix = uf.log2(matrix)
  matrix = uf.quantile_normalize(matrix)
  matrix = uf.zscore(matrix)
  standard_matrix = uf.standardized_matrix(matrix)
  ternary_matrix = uf.ternary_matrix(standard_matrix)
  \<close>
\<close>

definition normalize :: "'m uf \<Rightarrow> 'm \<Rightarrow> 'm notebook" where
  "normalize u matrix0 =
     (let matrix = uf.remove_impute u matrix0;
          matrix = uf.log2 u matrix;
          matrix = uf.quantile_normalize u matrix;
          matrix = uf.zscore u matrix;
          standard_matrix = uf.standardized_matrix u matrix;
          ternary_matrix = uf.ternary_matrix u standard_matrix
      in \<lparr>matrix = matrix, standard_matrix = standard_matrix, ternary_matrix = ternary_matrix\<rparr>)"

text \<open>An instance of the module in which a matrix is the list of the calls that made it.\<close>

definition call_log :: "string list uf" where
  "call_log =
     \<lparr>remove_impute = (\<lambda>m. m @ [''remove_impute'']),
      log2 = (\<lambda>m. m @ [''log2'']),
      quantile_normalize = (\<lambda>m. m @ [''quantile_normalize'']),
      zscore = (\<lambda>m. m @ [''zscore'']),
      standardized_matrix = (\<lambda>m. m @ [''standardized_matrix'']),
      ternary_matrix = (\<lambda>m. m @ [''ternary_matrix''])\<rparr>"

section \<open>A worked run\<close>

text \<open>Two libraries with four gene sets, and a stand-in for the external Fisher
  test, to run the loop and the tables on. Two of the three pairs get the same p-value,
  and the p-values do not come in ascending order.\<close>

definition example_ds1 :: gmt where
  "example_ds1 = [(''u'', {|''B''|}), (''s'', {|''A'', ''B'', ''C''|}), (''w'', {|''C''|})]"

definition example_ds2 :: gmt where
  "example_ds2 = [(''t'', {|''B'', ''C''|})]"

definition example_pvalue :: two_tail where
  "example_pvalue a b c d = Inr (1 / of_int (c + 1))"

definition example_state :: overlap where
  "example_state =
     \<lparr>jaccard = \<lparr>index = [''u'', ''s'', ''w''], columns = [''t''],
                 cells = (\<lambda>_. 0)((''u'', ''t'') := 1 / 2, (''s'', ''t'') := 1 / 3,
                                (''w'', ''t'') := 1 / 2)\<rparr>,
      fisherp = \<lparr>index = [''u'', ''s'', ''w''], columns = [''t''],
                 cells = (\<lambda>_. 0)((''u'', ''t'') := 1 / 2, (''s'', ''t'') := 1 / 4,
                                (''w'', ''t'') := 1 / 2)\<rparr>,
      intersect = [(''u'', ''t'') \<mapsto> {|''B''|}, (''s'', ''t'') \<mapsto> {|''B'', ''C''|},
                   (''w'', ''t'') \<mapsto> {|''C''|}]\<rparr>"

text \<open>An order of iteration for each of the three intersections the run stores.\<close>

definition example_iter :: "pair \<Rightarrow> geneset \<Rightarrow> string list" where
  "example_iter k s =
     (if k = (''s'', ''t'') then [''C'', ''B'']
      else if k = (''u'', ''t'') then [''B'']
      else if k = (''w'', ''t'') then [''C'']
      else [])"

section \<open>The spec's formulas\<close>

text \<open>The Jaccard index as the spec writes it: \<open>i / (i + only_a + only_b)\<close> with
  \<open>i = |a \<inter> b|\<close>, \<open>only_a = |a \ b|\<close>, \<open>only_b = |b \ a|\<close>.\<close>

definition jaccard_spec :: "geneset \<Rightarrow> geneset \<Rightarrow> rat" where
  "jaccard_spec a b =
     of_nat (fcard (a |\<inter>| b)) /
     of_nat (fcard (a |\<inter>| b) + fcard (a |-| b) + fcard (b |-| a))"

text \<open>The contingency table as the spec writes it: \<open>[[i, only_a], [only_b, neither]]\<close>
  with \<open>neither = n - i - only_a - only_b\<close>.\<close>

definition fisher_table_spec :: "int \<Rightarrow> geneset \<Rightarrow> geneset \<Rightarrow> int \<times> int \<times> int \<times> int" where
  "fisher_table_spec n a b =
     (let i = int (fcard (a |\<inter>| b));
          only_a = int (fcard (a |-| b));
          only_b = int (fcard (b |-| a))
      in (i, only_a, only_b, n - i - only_a - only_b))"

text \<open>The ranking of the top table as the spec writes it: by Jaccard descending, ties
  broken by q ascending. A row is (pair, Jaccard, p, q).\<close>

definition ranks_before ::
  "pair \<times> rat \<times> rat \<times> rat \<Rightarrow> pair \<times> rat \<times> rat \<times> rat \<Rightarrow> bool" where
  "ranks_before r r' =
     (case r of (k, jv, p, q) \<Rightarrow> case r' of (k', jv', p', q') \<Rightarrow>
        jv' < jv \<or> (jv = jv' \<and> q \<le> q'))"

section \<open>Auxiliary notions for the proofs\<close>

text \<open>Two states of the loop agree at a pair of term names.\<close>

definition same_at :: "overlap \<Rightarrow> overlap \<Rightarrow> pair \<Rightarrow> bool" where
  "same_at st st' k \<longleftrightarrow>
     cells (jaccard st') k = cells (jaccard st) k
     \<and> cells (fisherp st') k = cells (fisherp st) k
     \<and> intersect st' k = intersect st k"

text \<open>The state holds, for two entries of the libraries, what the loop body computes
  for them.\<close>

definition computed_at ::
  "two_tail \<Rightarrow> int \<Rightarrow> overlap \<Rightarrow> string \<times> geneset \<Rightarrow> string \<times> geneset \<Rightarrow> bool" where
  "computed_at pvalue genes st ie je \<longleftrightarrow>
     (case contingency genes (snd ie) (snd je) of (a, b, c, d) \<Rightarrow>
        true_div a (a + b + c) = Inr (cells (jaccard st) (fst ie, fst je))
        \<and> pvalue a b c d = Inr (cells (fisherp st) (fst ie, fst je))
        \<and> intersect st (fst ie, fst je) = Some (snd ie |\<inter>| snd je))"

text \<open>The q-value of a pair, from the cells of the p-value table.\<close>

definition q_value :: "dataframe \<Rightarrow> pair \<Rightarrow> rat" where
  "q_value df k =
     cells df k * of_nat (length (index df) * length (columns df))
       / rank (map (cells df) (List.product (index df) (columns df))) (cells df k)"

section \<open>Properties of the pairwise loop\<close>

lemma contingency_counts:
  "contingency genes iset jset =
     (int (fcard (iset |\<inter>| jset)), int (fcard (iset |-| jset)), int (fcard iset),
      genes - int (fcard (iset |\<inter>| jset)) - int (fcard (iset |-| jset)) - int (fcard iset))"
  by (simp add: contingency_def difference_def Let_def)

lemma fcard_split: "fcard (iset |\<inter>| jset) + fcard (iset |-| jset) = fcard iset"
proof -
  have "card (fset iset \<inter> fset jset) + card (fset iset - fset jset) = card (fset iset)"
    using card_Un_disjoint [of "fset iset \<inter> fset jset" "fset iset - fset jset"]
    by (simp add: Int_Diff_Un Int_Diff_disjoint)
  then show ?thesis by (simp add: fcard.rep_eq)
qed

lemma fcard_zero: "(fcard s = 0) = (s = {||})"
proof
  assume "fcard s = 0"
  then have "fset s = {}" by (simp add: fcard.rep_eq)
  then show "s = {||}" by (simp add: fset_cong [symmetric])
next
  assume "s = {||}"
  then show "fcard s = 0" by simp
qed

text \<open>The universe is the union of all gene sets of both libraries.\<close>

lemma fold_union:
  "fset (fold (\<lambda>geneset genes. genes |\<union>| geneset) xs acc) = fset acc \<union> (\<Union>s \<in> set xs. fset s)"
  by (induction xs arbitrary: acc) auto

lemma universe_union:
  "fset (universe ds1 ds2) = (\<Union>s \<in> set (dict_values ds1) \<union> set (dict_values ds2). fset s)"
  by (auto simp: universe_def fold_union)

text \<open>What the loop assigns to a Jaccard cell: the shared genes over twice the size of
  the first set, since \<open>c\<close> is the size of the first set; the division raises exactly
  when the first set is empty.\<close>

lemma jaccard_value_eq:
  "jaccard_value iset jset =
     (if iset = {||} then Inl ZeroDivisionError
      else Inr (of_nat (fcard (iset |\<inter>| jset)) / of_nat (2 * fcard iset)))"
proof -
  have "fcard (iset |\<inter>| jset) + fcard (iset |-| jset) = fcard iset"
    by (rule fcard_split)
  then have e: "int (fcard (iset |\<inter>| jset)) + int (fcard (iset |-| jset)) = int (fcard iset)"
    by linarith
  show ?thesis
    using fcard_zero [of iset]
    by (simp add: jaccard_value_def contingency_counts true_div_def e)
qed

text \<open>The bounds half of claim C3 holds on the code: for a non-empty first set the cell
  is a number between 0 and 1 (indeed at most 1/2).\<close>

lemma jaccard_value_bounds:
  assumes "iset \<noteq> {||}"
  shows "\<exists>v. jaccard_value iset jset = Inr v \<and> 0 \<le> v \<and> v \<le> 1 / 2"
proof -
  let ?a = "fcard (iset |\<inter>| jset)" and ?n = "fcard iset"
  have n: "0 < ?n"
  proof (rule ccontr)
    assume "\<not> 0 < ?n"
    then have "?n = 0" by simp
    then have "iset = {||}" by (simp only: fcard_zero)
    with assms show False by simp
  qed
  have "?a \<le> ?n" using fcard_split [of iset jset] by linarith
  then have "(of_nat ?a :: rat) \<le> of_nat ?n" by (rule of_nat_mono)
  then have "(of_nat ?a :: rat) / of_nat (2 * ?n) \<le> 1 / 2"
    using n by (simp add: divide_simps)
  moreover have "(0 :: rat) \<le> of_nat ?a / of_nat (2 * ?n)" by simp
  ultimately show ?thesis using assms by (simp add: jaccard_value_eq)
qed

text \<open>
  Claim C1. The spec's own scenario, the gene sets \<open>{A,B,C}\<close> and \<open>{B,C,D}\<close>: the loop
  assigns 2/(2+1+3) = 1/3 to the Jaccard cell, where the formula of the claim gives
  2/(2+1+1) = 1/2. The third count of the source is \<^verbatim>\<open>len(set.difference(iset))\<close>, the
  size of the first set, not the number of genes that are only in the second. The run
  of the loop is shown with a Fisher test that answers 1.
\<close>

theorem jaccard_value_scenario_is_one_third:
  "jaccard_value {|''A'', ''B'', ''C''|} {|''B'', ''C'', ''D''|}
     = Inr (1 / 3)
   \<and> jaccard_spec {|''A'', ''B'', ''C''|} {|''B'', ''C'', ''D''|}
     = 1 / 2
   \<and> overlap_loop (\<lambda>a b c d. Inr 1)
         [(''s'', {|''A'', ''B'', ''C''|})] [(''t'', {|''B'', ''C'', ''D''|})]
     = Inr \<lparr>jaccard = \<lparr>index = [''s''], columns = [''t''],
                         cells = (\<lambda>_. 0)((''s'', ''t'') := 1 / 3)\<rparr>,
            fisherp = \<lparr>index = [''s''], columns = [''t''],
                         cells = (\<lambda>_. 0)((''s'', ''t'') := 1)\<rparr>,
            intersect = [(''s'', ''t'') \<mapsto> {|''B'', ''C''|}]\<rparr>"
  by (simp add: jaccard_value_def contingency_counts true_div_def jaccard_spec_def fcard.rep_eq
      overlap_loop_def pair_step_def keys_def DataFrame0_def loc_set_def)

lemma scenario_genes:
  "genes_count [(''s'', {|''A'', ''B'', ''C''|})]
               [(''t'', {|''B'', ''C'', ''D''|})] = 4"
  by code_simp

text \<open>
  Claim C2. For the same two gene sets, alone in their libraries, the universe has 4
  genes and the loop hands the table \<open>[[2, 1], [3, -2]]\<close> to the Fisher test, where the
  table of the claim is \<open>[[2, 1], [1, 0]]\<close>: the third entry is the size of the first
  set, and the fourth, computed from it, is negative. A Fisher test that answers only
  the first table lets the loop complete; one that answers only the table of the claim
  makes it fail.
\<close>

theorem contingency_scenario_table:
  "genes_count [(''s'', {|''A'', ''B'', ''C''|})]
               [(''t'', {|''B'', ''C'', ''D''|})] = 4
   \<and> contingency 4 {|''A'', ''B'', ''C''|} {|''B'', ''C'', ''D''|}
     = (2, 1, 3, - 2)
   \<and> fisher_table_spec 4 {|''A'', ''B'', ''C''|} {|''B'', ''C'', ''D''|}
     = (2, 1, 1, 0)
   \<and> overlap_loop (\<lambda>a b c d. if (a, b, c, d) = (2, 1, 3, - 2) then Inr 1 else Inl FisherError)
         [(''s'', {|''A'', ''B'', ''C''|})] [(''t'', {|''B'', ''C'', ''D''|})]
     = Inr \<lparr>jaccard = \<lparr>index = [''s''], columns = [''t''],
                         cells = (\<lambda>_. 0)((''s'', ''t'') := 1 / 3)\<rparr>,
            fisherp = \<lparr>index = [''s''], columns = [''t''],
                         cells = (\<lambda>_. 0)((''s'', ''t'') := 1)\<rparr>,
            intersect = [(''s'', ''t'') \<mapsto> {|''B'', ''C''|}]\<rparr>
   \<and> overlap_loop (\<lambda>a b c d. if (a, b, c, d) = (2, 1, 1, 0) then Inr 1 else Inl FisherError)
         [(''s'', {|''A'', ''B'', ''C''|})] [(''t'', {|''B'', ''C'', ''D''|})]
     = Inl FisherError"
proof -
  have "contingency 4 {|''A'', ''B'', ''C''|}
      {|''B'', ''C'', ''D''|} = (2, 1, 3, - 2)"
    by (simp add: contingency_counts fcard.rep_eq)
  moreover have "fisher_table_spec 4 {|''A'', ''B'', ''C''|}
      {|''B'', ''C'', ''D''|} = (2, 1, 1, 0)"
    by (simp add: fisher_table_spec_def fcard.rep_eq)
  moreover have "overlap_loop (\<lambda>a b c d. if (a, b, c, d) = (2, 1, 3, - 2) then Inr 1 else Inl FisherError)
         [(''s'', {|''A'', ''B'', ''C''|})] [(''t'', {|''B'', ''C'', ''D''|})]
     = Inr \<lparr>jaccard = \<lparr>index = [''s''], columns = [''t''],
                         cells = (\<lambda>_. 0)((''s'', ''t'') := 1 / 3)\<rparr>,
            fisherp = \<lparr>index = [''s''], columns = [''t''],
                         cells = (\<lambda>_. 0)((''s'', ''t'') := 1)\<rparr>,
            intersect = [(''s'', ''t'') \<mapsto> {|''B'', ''C''|}]\<rparr>"
    by (simp add: overlap_loop_def scenario_genes pair_step_def contingency_counts true_div_def
        fcard.rep_eq keys_def DataFrame0_def loc_set_def)
  moreover have "overlap_loop (\<lambda>a b c d. if (a, b, c, d) = (2, 1, 1, 0) then Inr 1 else Inl FisherError)
         [(''s'', {|''A'', ''B'', ''C''|})] [(''t'', {|''B'', ''C'', ''D''|})]
     = Inl FisherError"
    by (simp add: overlap_loop_def scenario_genes pair_step_def contingency_counts true_div_def
        fcard.rep_eq keys_def DataFrame0_def loc_set_def)
  ultimately show ?thesis using scenario_genes by simp
qed

text \<open>
  Claim C3. A gene set paired with itself: the loop assigns 1/2, not 1, to the Jaccard
  cell, for the one-gene set \<open>{A}\<close> present in both libraries.
\<close>

theorem jaccard_value_identical_sets_is_half:
  "jaccard_value {|''A''|} {|''A''|} = Inr (1 / 2)
   \<and> overlap_loop (\<lambda>a b c d. Inr 1) [(''s'', {|''A''|})] [(''t'', {|''A''|})]
     = Inr \<lparr>jaccard = \<lparr>index = [''s''], columns = [''t''],
                         cells = (\<lambda>_. 0)((''s'', ''t'') := 1 / 2)\<rparr>,
            fisherp = \<lparr>index = [''s''], columns = [''t''],
                         cells = (\<lambda>_. 0)((''s'', ''t'') := 1)\<rparr>,
            intersect = [(''s'', ''t'') \<mapsto> {|''A''|}]\<rparr>"
  by (simp add: jaccard_value_def contingency_counts true_div_def fcard.rep_eq
      overlap_loop_def pair_step_def keys_def DataFrame0_def loc_set_def)

text \<open>
  Claim C4, as the claim states it, fails: for two empty gene sets the division
  \<^verbatim>\<open>a/(a+b+c)\<close> is 0/0 and raises \<^verbatim>\<open>ZeroDivisionError\<close>; no 0 is emitted and the loop
  stops there.
\<close>

theorem jaccard_value_empty_sets_raises:
  "jaccard_value {||} {||} = Inl ZeroDivisionError
   \<and> jaccard_value {||} {||} \<noteq> Inr 0
   \<and> overlap_loop (\<lambda>a b c d. Inr 1) [(''s'', {||})] [(''t'', {||})] = Inl ZeroDivisionError"
  by (simp add: jaccard_value_def contingency_counts true_div_def overlap_loop_def pair_step_def)

text \<open>
  Claim C4, amended. For every pair of gene sets whose union is empty, the Jaccard
  computation raises \<^verbatim>\<open>ZeroDivisionError\<close>, and so does the loop body for that pair,
  before the Fisher test is called and whatever the tables hold.
\<close>

theorem empty_union_raises_zero_division:
  "iset |\<union>| jset = {||} \<Longrightarrow>
   jaccard_value iset jset = Inl ZeroDivisionError
   \<and> pair_step pvalue genes (i, iset) (j, jset) st = Inl ZeroDivisionError"
  by (simp add: jaccard_value_def contingency_counts true_div_def pair_step_def)

theorem empty_union_raises_zero_division_witness:
  "({||} :: geneset) |\<union>| {||} = {||}
   \<and> jaccard_value {||} {||} = Inl ZeroDivisionError
   \<and> pair_step (\<lambda>a b c d. Inr 1) 0 (''s'', {||}) (''t'', {||})
        \<lparr>jaccard = DataFrame0 [''s''] [''t''], fisherp = DataFrame0 [''s''] [''t''],
         intersect = Map.empty\<rparr> = Inl ZeroDivisionError"
  using empty_union_raises_zero_division [of "{||}" "{||}" "\<lambda>a b c d. Inr 1" 0 "''s''" "''t''"
      "\<lparr>jaccard = DataFrame0 [''s''] [''t''], fisherp = DataFrame0 [''s''] [''t''],
        intersect = Map.empty\<rparr>"]
  by simp

section \<open>Properties of \<^verbatim>\<open>load_gmt\<close>\<close>

lemma split_from_nonempty: "split_from sep cur s \<noteq> []"
  by (induction s arbitrary: cur) auto

lemma split_line_nonempty: "split_line line \<noteq> []"
  by (simp add: split_line_def split_def split_from_nonempty)

lemma load_gmt_loop_malformed:
  "\<exists>line \<in> set lns. length (split_line line) < 2 \<Longrightarrow>
   load_gmt_loop gmt lns =
     Inl (ValueError ''not enough values to unpack (expected at least 2, got 1)'')"
proof (induction lns arbitrary: gmt)
  case Nil
  then show ?case by simp
next
  case (Cons line lns)
  show ?case
  proof (cases "split_line line")
    case Nil
    then show ?thesis using split_line_nonempty by blast
  next
    case (Cons t rest)
    note outer = this
    show ?thesis
    proof (cases rest)
      case Nil
      then show ?thesis using outer by simp
    next
      case (Cons description geneset)
      then have "\<not> length (split_line line) < 2" using outer by simp
      then have "\<exists>l \<in> set lns. length (split_line l) < 2" using Cons.prems by auto
      then show ?thesis using Cons.IH outer Cons by simp
    qed
  qed
qed







lemmas line_eval = split_line_def split_def strip_def isspace_def


text \<open>The fields are read after \<^verbatim>\<open>strip\<close>: a line that ends with the tab after its
  term has lost that tab, and with it the empty description.\<close>

lemma load_gmt_empty_description_raises:
  "load_gmt [''T'' @ [tab]]
     = Inl (ValueError ''not enough values to unpack (expected at least 2, got 1)'')"
  by (simp add: load_gmt_def line_eval)

section \<open>Properties of the symbol-remapping loop\<close>

text \<open>The loop always exits, and its body runs at most once: after one pass \<open>count\<close> is
  \<open>dupes - df.shape[0]\<close> for the very frame the test reads, so the test is 0.\<close>

lemma remap_while_once:
  "remap_while ms sh dupes df cnt =
     Some (if dupes - int (sh df) - cnt = 0 then (df, cnt)
           else (ms df, dupes - int (sh (ms df))))"
  apply (subst remap_while.simps)
  apply (simp add: Let_def)
  apply (subst remap_while.simps)
  apply simp
  done

lemma remap_total:
  "remap ms sh df =
     Some (if sh (ms df) = sh df then (ms df, 0)
           else (ms (ms df), int (sh df) - int (sh (ms (ms df)))))"
  by (simp add: remap_def remap_while_once Let_def)

text \<open>
  Claim C6. Four rows \<open>A, B, C, D\<close> and a lookup table that maps \<open>A\<close> to \<open>B\<close>, \<open>B\<close> to
  \<open>C\<close>, \<open>C\<close> to \<open>D\<close> and \<open>D\<close> to itself. The first call leaves 3 rows, so the loop is
  entered; the second call leaves 2 rows, and the loop exits with \<open>count = 2\<close> although
  that call changed the row count; a third call would leave 1 row.
\<close>

theorem remap_exits_before_row_count_is_stable:
  "remap (mapSymbols [(''A'', ''B''), (''B'', ''C''), (''C'', ''D''), (''D'', ''D'')]) length
       [''A'', ''B'', ''C'', ''D'']
     = Some ([''C'', ''D''], 2)
   \<and> length (mapSymbols [(''A'', ''B''), (''B'', ''C''), (''C'', ''D''), (''D'', ''D'')]
       [''A'', ''B'', ''C'', ''D'']) = 3
   \<and> length (mapSymbols [(''A'', ''B''), (''B'', ''C''), (''C'', ''D''), (''D'', ''D'')]
       [''C'', ''D'']) = 1"
  by (simp add: remap_total mapSymbols_def keep_first_def List.map_filter_simps)

section \<open>Properties of the normalisation cells\<close>

text \<open>
  Claim C9, as the claim states it, fails: the ternary matrix is computed from
  \<open>standard_matrix\<close>, not from the z-scored \<open>matrix\<close>. With every function logging its
  name, the ternary matrix has gone through \<^verbatim>\<open>standardized_matrix\<close> between \<^verbatim>\<open>zscore\<close>
  and \<^verbatim>\<open>ternary_matrix\<close>.
\<close>

theorem ternary_matrix_not_of_zscored_matrix:
  "notebook.ternary_matrix (normalize call_log [])
     = [''remove_impute'', ''log2'', ''quantile_normalize'', ''zscore'',
        ''standardized_matrix'', ''ternary_matrix'']
   \<and> uf.ternary_matrix call_log (notebook.matrix (normalize call_log []))
     = [''remove_impute'', ''log2'', ''quantile_normalize'', ''zscore'', ''ternary_matrix'']
   \<and> notebook.ternary_matrix (normalize call_log [])
     \<noteq> uf.ternary_matrix call_log (notebook.matrix (normalize call_log []))"
  by (simp add: normalize_def call_log_def Let_def)

text \<open>
  Claim C9, amended. The cells apply, in this order and each to the output of the one
  before: missing-data filtering and imputation, log transform, quantile normalisation,
  row z-scoring, standardisation, ternarisation. The ternary matrix is computed from the
  standardised matrix, which is computed from the z-scored matrix.
\<close>

theorem normalize_stage_order:
  "notebook.matrix (normalize u m)
     = uf.zscore u (uf.quantile_normalize u (uf.log2 u (uf.remove_impute u m)))
   \<and> notebook.standard_matrix (normalize u m)
     = uf.standardized_matrix u (notebook.matrix (normalize u m))
   \<and> notebook.ternary_matrix (normalize u m)
     = uf.ternary_matrix u (notebook.standard_matrix (normalize u m))"
  by (simp add: normalize_def Let_def)

section \<open>What a completed run of the pairwise loop holds\<close>

lemma pair_step_frames:
  assumes "pair_step pv genes ie je st = Inr st'"
  shows "index (jaccard st') = index (jaccard st) \<and> columns (jaccard st') = columns (jaccard st)
       \<and> index (fisherp st') = index (fisherp st) \<and> columns (fisherp st') = columns (fisherp st)"
  using assms
  by (auto simp: pair_step_def loc_set_def split: prod.splits sum.splits)

lemma inner_loop_frames:
  "inner_loop pv genes ie ds2 st = Inr st' \<Longrightarrow>
   index (jaccard st') = index (jaccard st) \<and> columns (jaccard st') = columns (jaccard st)
   \<and> index (fisherp st') = index (fisherp st) \<and> columns (fisherp st') = columns (fisherp st)"
proof (induction ds2 arbitrary: st)
  case Nil
  then show ?case by simp
next
  case (Cons je ds2)
  then obtain st1 where s: "pair_step pv genes ie je st = Inr st1"
    and r: "inner_loop pv genes ie ds2 st1 = Inr st'"
    by (auto split: sum.splits)
  show ?case using pair_step_frames [OF s] Cons.IH [OF r] by simp
qed

lemma outer_loop_frames:
  "outer_loop pv genes ds1 ds2 st = Inr st' \<Longrightarrow>
   index (jaccard st') = index (jaccard st) \<and> columns (jaccard st') = columns (jaccard st)
   \<and> index (fisherp st') = index (fisherp st) \<and> columns (fisherp st') = columns (fisherp st)"
proof (induction ds1 arbitrary: st)
  case Nil
  then show ?case by simp
next
  case (Cons ie ds1)
  then obtain st1 where s: "inner_loop pv genes ie ds2 st = Inr st1"
    and r: "outer_loop pv genes ds1 ds2 st1 = Inr st'"
    by (auto split: sum.splits)
  show ?case using inner_loop_frames [OF s] Cons.IH [OF r] by simp
qed

lemma overlap_loop_frames:
  assumes "overlap_loop pv ds1 ds2 = Inr st"
  shows "index (jaccard st) = keys ds1" "columns (jaccard st) = keys ds2"
    "index (fisherp st) = keys ds1" "columns (fisherp st) = keys ds2"
  using outer_loop_frames [OF assms [unfolded overlap_loop_def]]
  by (simp_all add: DataFrame0_def)


lemma same_at_refl: "same_at st st k"
  by (simp add: same_at_def)

lemma same_at_trans: "same_at st st1 k \<Longrightarrow> same_at st1 st2 k \<Longrightarrow> same_at st st2 k"
  by (simp add: same_at_def)

lemma computed_at_same:
  "computed_at pv genes st ie je \<Longrightarrow> same_at st st' (fst ie, fst je) \<Longrightarrow>
   computed_at pv genes st' ie je"
  by (simp add: computed_at_def same_at_def split: prod.splits)

lemma pair_step_computed:
  "pair_step pv genes ie je st = Inr st' \<Longrightarrow> computed_at pv genes st' ie je"
  by (auto simp: pair_step_def computed_at_def loc_set_def split: prod.splits sum.splits)

lemma pair_step_same:
  "pair_step pv genes ie je st = Inr st' \<Longrightarrow> k \<noteq> (fst ie, fst je) \<Longrightarrow> same_at st st' k"
  by (auto simp: pair_step_def same_at_def loc_set_def split: prod.splits sum.splits)

lemma inner_loop_same:
  "inner_loop pv genes ie ds2 st = Inr st' \<Longrightarrow>
   fst k \<noteq> fst ie \<or> snd k \<notin> set (keys ds2) \<Longrightarrow> same_at st st' k"
proof (induction ds2 arbitrary: st)
  case Nil
  then show ?case by (simp add: same_at_refl)
next
  case (Cons je ds2)
  from Cons.prems(1) obtain st1 where s: "pair_step pv genes ie je st = Inr st1"
    and r: "inner_loop pv genes ie ds2 st1 = Inr st'"
    by (auto split: sum.splits)
  have "k \<noteq> (fst ie, fst je)" using Cons.prems(2) by (auto simp: keys_def)
  then have a: "same_at st st1 k" by (rule pair_step_same [OF s])
  have "fst k \<noteq> fst ie \<or> snd k \<notin> set (keys ds2)" using Cons.prems(2) by (auto simp: keys_def)
  then have b: "same_at st1 st' k" by (rule Cons.IH [OF r])
  show ?case by (rule same_at_trans [OF a b])
qed

lemma inner_loop_computed:
  "inner_loop pv genes ie ds2 st = Inr st' \<Longrightarrow> distinct (keys ds2) \<Longrightarrow> je \<in> set ds2 \<Longrightarrow>
   computed_at pv genes st' ie je"
proof (induction ds2 arbitrary: st)
  case Nil
  then show ?case by simp
next
  case (Cons je0 ds2)
  from Cons.prems(1) obtain st1 where s: "pair_step pv genes ie je0 st = Inr st1"
    and r: "inner_loop pv genes ie ds2 st1 = Inr st'"
    by (auto split: sum.splits)
  have d: "distinct (keys ds2)" and n: "fst je0 \<notin> set (keys ds2)"
    using Cons.prems(2) by (simp_all add: keys_def)
  show ?case
  proof (cases "je = je0")
    case True
    have "computed_at pv genes st1 ie je0" by (rule pair_step_computed [OF s])
    moreover have "same_at st1 st' (fst ie, fst je0)"
      by (rule inner_loop_same [OF r]) (simp add: n)
    ultimately show ?thesis using True by (simp add: computed_at_same)
  next
    case False
    then have "je \<in> set ds2" using Cons.prems(3) by simp
    then show ?thesis by (rule Cons.IH [OF r d])
  qed
qed

lemma outer_loop_same:
  "outer_loop pv genes ds1 ds2 st = Inr st' \<Longrightarrow> fst k \<notin> set (keys ds1) \<Longrightarrow> same_at st st' k"
proof (induction ds1 arbitrary: st)
  case Nil
  then show ?case by (simp add: same_at_refl)
next
  case (Cons ie ds1)
  from Cons.prems(1) obtain st1 where s: "inner_loop pv genes ie ds2 st = Inr st1"
    and r: "outer_loop pv genes ds1 ds2 st1 = Inr st'"
    by (auto split: sum.splits)
  have "fst k \<noteq> fst ie \<or> snd k \<notin> set (keys ds2)" using Cons.prems(2) by (simp add: keys_def)
  then have a: "same_at st st1 k" by (rule inner_loop_same [OF s])
  have "fst k \<notin> set (keys ds1)" using Cons.prems(2) by (simp add: keys_def)
  then have b: "same_at st1 st' k" by (rule Cons.IH [OF r])
  show ?case by (rule same_at_trans [OF a b])
qed

lemma outer_loop_computed:
  "outer_loop pv genes ds1 ds2 st = Inr st' \<Longrightarrow> distinct (keys ds1) \<Longrightarrow> distinct (keys ds2) \<Longrightarrow>
   ie \<in> set ds1 \<Longrightarrow> je \<in> set ds2 \<Longrightarrow> computed_at pv genes st' ie je"
proof (induction ds1 arbitrary: st)
  case Nil
  then show ?case by simp
next
  case (Cons ie0 ds1)
  from Cons.prems(1) obtain st1 where s: "inner_loop pv genes ie0 ds2 st = Inr st1"
    and r: "outer_loop pv genes ds1 ds2 st1 = Inr st'"
    by (auto split: sum.splits)
  have d: "distinct (keys ds1)" and n: "fst ie0 \<notin> set (keys ds1)"
    using Cons.prems(2) by (simp_all add: keys_def)
  show ?case
  proof (cases "ie = ie0")
    case True
    have "computed_at pv genes st1 ie0 je"
      by (rule inner_loop_computed [OF s Cons.prems(3) Cons.prems(5)])
    moreover have "same_at st1 st' (fst ie0, fst je)"
      by (rule outer_loop_same [OF r]) (simp add: n)
    ultimately show ?thesis using True by (simp add: computed_at_same)
  next
    case False
    then have "ie \<in> set ds1" using Cons.prems(4) by simp
    then show ?thesis by (rule Cons.IH [OF r d Cons.prems(3) _ Cons.prems(5)])
  qed
qed

lemma overlap_loop_computed:
  assumes "overlap_loop pv ds1 ds2 = Inr st" "distinct (keys ds1)" "distinct (keys ds2)"
    "(i, iset) \<in> set ds1" "(j, jset) \<in> set ds2"
  shows "computed_at pv (genes_count ds1 ds2) st (i, iset) (j, jset)"
  using outer_loop_computed [OF assms(1) [unfolded overlap_loop_def] assms(2-5)] .

section \<open>Properties of the result tables\<close>

lemma stack_product:
  "stack df = map (\<lambda>k. (k, cells df k)) (List.product (index df) (columns df))"
proof -
  have "concat (map (\<lambda>i. concat (map (\<lambda>j. [((i, j), f (i, j))]) ys)) xs)
          = map (\<lambda>k. (k, f k)) (List.product xs ys)" for f :: "pair \<Rightarrow> rat" and xs ys
    by (induction xs) (simp_all add: comp_def concat_map_singleton)
  then show ?thesis by (simp add: stack_def)
qed

lemma keys_stack: "map fst (stack df) = List.product (index df) (columns df)"
  by (simp add: stack_product comp_def)

lemma ftop_eq:
  "ftop df = sort_key (\<lambda>(k, p, q). q)
     (map (\<lambda>k. (k, cells df k, q_value df k)) (List.product (index df) (columns df)))"
  by (simp add: ftop_def Let_def stack_product comp_def q_value_def)

lemma ftop_keys: "mset (map fst (ftop df)) = mset (List.product (index df) (columns df))"
proof -
  let ?rows = "map (\<lambda>k. (k, cells df k, q_value df k)) (List.product (index df) (columns df))"
  have "mset (ftop df) = mset ?rows" by (simp add: ftop_eq)
  then have "image_mset fst (mset (ftop df)) = image_mset fst (mset ?rows)" by (rule arg_cong)
  then have "mset (map fst (ftop df)) = mset (map fst ?rows)" by (simp only: mset_map)
  then show ?thesis by (simp add: comp_def)
qed

lemma ftop_rows:
  "r \<in> set (ftop df) \<Longrightarrow>
   fst r \<in> set (List.product (index df) (columns df))
   \<and> fst (snd r) = cells df (fst r) \<and> snd (snd r) = q_value df (fst r)"
  by (auto simp: ftop_eq)

lemma ftop_sorted: "sorted (map (\<lambda>(k, p, q). q) (ftop df))"
  by (simp add: ftop_def Let_def)

text \<open>The rank by counting: with the values below \<open>v\<close> in the first places, the values
  equal to \<open>v\<close> stand in the places after them.\<close>

lemma length_filter_le:
  "length (filter (\<lambda>x. x \<le> v) xs)
     = length (filter (\<lambda>x. x < v) xs) + length (filter (\<lambda>x. x = v) xs)" for v :: rat
  by (induction xs) auto

lemma filter_enumerate_sorted:
  "sorted xs \<Longrightarrow>
   filter (\<lambda>(i, x). x = v) (enumerate n xs)
     = enumerate (n + length (filter (\<lambda>x. x < v) xs))
         (replicate (length (filter (\<lambda>x. x = v) xs)) v)" for v :: rat
proof (induction xs arbitrary: n)
  case Nil
  then show ?case by simp
next
  case (Cons x xs)
  then have s: "sorted xs" and ge: "\<forall>y \<in> set xs. x \<le> y" by simp_all
  have ih: "filter (\<lambda>(i, x). x = v) (enumerate (Suc n) xs)
     = enumerate (Suc n + length (filter (\<lambda>x. x < v) xs))
         (replicate (length (filter (\<lambda>x. x = v) xs)) v)"
    by (rule Cons.IH [OF s])
  consider "x < v" | "x = v" | "v < x" by linarith
  then show ?case
  proof cases
    case 1
    then show ?thesis using ih by simp
  next
    case 2
    then have "filter (\<lambda>x. x < v) xs = []" using ge by (auto simp: filter_empty_conv)
    then show ?thesis using ih 2 by simp
  next
    case 3
    then have "filter (\<lambda>x. x < v) xs = []" "filter (\<lambda>x. x = v) xs = []"
      using ge by (auto simp: filter_empty_conv)
    then show ?thesis using ih 3 by simp
  qed
qed

lemma sum_Suc_upt: "2 * sum_list (map Suc [a..<a + k]) = k * (2 * a + k + 1)"
  by (induction k) (simp_all add: algebra_simps)

lemma places_eq:
  "places ps v = map Suc [length (filter (\<lambda>x. x < v) ps)
                            ..<length (filter (\<lambda>x. x < v) ps) + length (filter (\<lambda>x. x = v) ps)]"
proof -
  have f: "length (filter P (sort ps)) = length (filter P ps)" for P
    by (simp add: filter_sort)
  have "filter (\<lambda>(i, x). x = v) (enumerate 0 (sort ps))
     = enumerate (length (filter (\<lambda>x. x < v) ps)) (replicate (length (filter (\<lambda>x. x = v) ps)) v)"
    using filter_enumerate_sorted [of "sort ps" v 0] by (simp add: f)
  then show ?thesis by (simp add: places_def map_fst_enumerate flip: map_map)
qed

lemma rank_counts:
  assumes "v \<in> set ps"
  shows "rank ps v = (of_nat (length (filter (\<lambda>x. x < v) ps)) + 1
                        + of_nat (length (filter (\<lambda>x. x \<le> v) ps))) / 2"
proof -
  let ?a = "length (filter (\<lambda>x. x < v) ps)" and ?k = "length (filter (\<lambda>x. x = v) ps)"
  have "v \<in> set (filter (\<lambda>x. x = v) ps)" using assms by simp
  then have "0 < ?k" by (rule length_pos_if_in_set)
  then have k: "(of_nat ?k :: rat) \<noteq> 0" by simp
  have "2 * sum_list (places ps v) = ?k * (2 * ?a + ?k + 1)"
    by (simp only: places_eq sum_Suc_upt)
  then have "(of_nat (2 * sum_list (places ps v)) :: rat) = of_nat (?k * (2 * ?a + ?k + 1))"
    by (rule arg_cong)
  then have s: "(of_nat (sum_list (places ps v)) :: rat) = of_nat ?k * (2 * of_nat ?a + of_nat ?k + 1) / 2"
    by (simp add: algebra_simps)
  have l: "length (places ps v) = ?k" by (simp add: places_eq)
  have "rank ps v = (2 * of_nat ?a + of_nat ?k + 1) / 2"
    using k by (simp add: rank_def s l)
  then show ?thesis by (simp add: length_filter_le)
qed

lemma filter_key_unique:
  "distinct (map fst xs) \<Longrightarrow> (k, v) \<in> set xs \<Longrightarrow> filter (\<lambda>x. fst x = k) xs = [(k, v)]"
proof (induction xs)
  case Nil
  then show ?case by simp
next
  case (Cons x xs)
  show ?case
  proof (cases "x = (k, v)")
    case True
    then have "k \<notin> fst ` set xs" using Cons.prems(1) by simp
    then have "filter (\<lambda>x. fst x = k) xs = []" by (auto simp: filter_empty_conv)
    then show ?thesis using True by simp
  next
    case False
    then have m: "(k, v) \<in> set xs" using Cons.prems(2) by simp
    then have "fst x \<noteq> k" using Cons.prems(1) by (auto simp: image_iff)
    then show ?thesis using Cons.IH m Cons.prems(1) by simp
  qed
qed

lemma concat_axis1_row:
  "concat_axis1 js fs =
     concat (map (\<lambda>(k, jv). map (\<lambda>(k', p, q). (k, jv, p, q)) (filter (\<lambda>x. fst x = k) fs)) js)"
proof -
  have "concat (map (\<lambda>(k', p, q). if k' = k then [(k, jv, p, q)] else []) fs)
          = map (\<lambda>(k', p, q). (k, jv, p, q)) (filter (\<lambda>x. fst x = k) fs)" for k :: pair and jv :: rat
    by (induction fs) auto
  then show ?thesis by (simp add: concat_axis1_def case_prod_unfold)
qed

lemma concat_map_single:
  "\<forall>x \<in> set xs. g x = [h x] \<Longrightarrow> concat (map g xs) = map h xs"
  by (induction xs) simp_all

lemma concat_axis1_total:
  assumes d: "distinct (map fst fs)"
    and c: "\<forall>(k, jv) \<in> set js. (k, f k) \<in> set fs"
  shows "concat_axis1 js fs = map (\<lambda>(k, jv). (k, jv, f k)) js"
proof -
  have "map (\<lambda>(k', p, q). (k, jv, p, q)) (filter (\<lambda>x. fst x = k) fs) = [(k, jv, f k)]"
    if "(k, jv) \<in> set js" for k jv
  proof -
    have "(k, f k) \<in> set fs" using c that by auto
    then have "filter (\<lambda>x. fst x = k) fs = [(k, f k)]" by (rule filter_key_unique [OF d])
    then show ?thesis by (simp add: case_prod_unfold)
  qed
  then have "\<forall>x \<in> set js.
      (\<lambda>(k, jv). map (\<lambda>(k', p, q). (k, jv, p, q)) (filter (\<lambda>x. fst x = k) fs)) x
        = [(\<lambda>(k, jv). (k, jv, f k)) x]"
    by auto
  then show ?thesis
    unfolding concat_axis1_row by (rule concat_map_single)
qed

lemma rank_distinct:
  assumes "distinct ps" "v \<in> set ps"
  shows "rank ps v = of_nat (length (filter (\<lambda>x. x < v) ps)) + 1"
proof -
  have "length (filter (\<lambda>x. x \<le> v) ps) = length (filter (\<lambda>x. x < v) ps) + 1"
    using assms
  proof (induction ps)
    case Nil
    then show ?case by simp
  next
    case (Cons x ps)
    show ?case
    proof (cases "x = v")
      case True
      then have "v \<notin> set ps" using Cons.prems(1) by simp
      then have "filter (\<lambda>x. x \<le> v) ps = filter (\<lambda>x. x < v) ps"
        by (intro filter_cong) (auto simp: le_less)
      then show ?thesis using True by simp
    next
      case False
      then have "v \<in> set ps" using Cons.prems(2) by simp
      then show ?thesis using Cons.IH Cons.prems(1) False by auto
    qed
  qed
  then show ?thesis using assms(2) by (simp add: rank_counts)
qed

lemma sorted_ranks_before:
  "sorted (map (\<lambda>(k, jv, p, q). (- jv, q)) rows) \<Longrightarrow> sorted_wrt ranks_before rows"
proof -
  assume "sorted (map (\<lambda>(k, jv, p, q). (- jv, q)) rows)"
  then have "sorted_wrt (\<lambda>r r'. (\<lambda>(k, jv, p, q). (- jv, q)) r \<le> (\<lambda>(k, jv, p, q). (- jv, q)) r') rows"
    by (simp add: sorted_map)
  then show ?thesis
    by (rule sorted_wrt_mono_rel [rotated]) (auto simp: ranks_before_def less_eq_prod_def)
qed

lemma jtop_eq:
  "jtop df = sort_key (\<lambda>(k, v). - v)
     (map (\<lambda>k. (k, cells df k)) (List.product (index df) (columns df)))"
  by (simp add: jtop_def stack_product)

lemma jtop_keys: "mset (map fst (jtop df)) = mset (List.product (index df) (columns df))"
proof -
  let ?rows = "map (\<lambda>k. (k, cells df k)) (List.product (index df) (columns df))"
  have "mset (jtop df) = mset ?rows" by (simp add: jtop_eq)
  then have "image_mset fst (mset (jtop df)) = image_mset fst (mset ?rows)" by (rule arg_cong)
  then have "mset (map fst (jtop df)) = mset (map fst ?rows)" by (simp only: mset_map)
  then show ?thesis by (simp add: comp_def)
qed

lemma jtop_rows:
  "r \<in> set (jtop df) \<Longrightarrow>
   fst r \<in> set (List.product (index df) (columns df)) \<and> snd r = cells df (fst r)"
  by (auto simp: jtop_eq)

lemma ftop_complete:
  "k \<in> set (List.product (index df) (columns df)) \<Longrightarrow>
   (k, cells df k, q_value df k) \<in> set (ftop df)"
  by (auto simp: ftop_eq)

lemma ftop_distinct:
  assumes "distinct (index df)" "distinct (columns df)"
  shows "distinct (map fst (ftop df))"
proof -
  have "distinct (List.product (index df) (columns df))"
    using assms by (rule distinct_product)
  then show ?thesis
    using mset_eq_imp_distinct_iff [OF ftop_keys [of df]] by simp
qed

lemma map_of_member:
  "distinct (keys d) \<Longrightarrow> k \<in> set (keys d) \<Longrightarrow> \<exists>v. map_of d k = Some v \<and> (k, v) \<in> set d"
proof (induction d)
  case Nil
  then show ?case by (simp add: keys_def)
next
  case (Cons x d)
  show ?case
  proof (cases "fst x = k")
    case True
    then have "map_of (x # d) k = Some (snd x) \<and> (k, snd x) \<in> set (x # d)"
      by (cases x) simp
    then show ?thesis by blast
  next
    case False
    then have "distinct (keys d)" "k \<in> set (keys d)"
      using Cons.prems by (simp_all add: keys_def)
    then obtain v where "map_of d k = Some v \<and> (k, v) \<in> set d"
      using Cons.IH by blast
    then have "map_of (x # d) k = Some v \<and> (k, v) \<in> set (x # d)"
      using False by (cases x) simp
    then show ?thesis by blast
  qed
qed

text \<open>Splitting a joined list at the separator gives the list back.\<close>

lemma split_from_no_sep:
  "sep \<notin> set x \<Longrightarrow> split_from sep cur x = [rev cur @ x]"
  by (induction x arbitrary: cur) auto

lemma split_from_field:
  "sep \<notin> set x \<Longrightarrow>
   split_from sep cur (x @ sep # rest) = (rev cur @ x) # split_from sep [] rest"
  by (induction x arbitrary: cur) auto

lemma split_join:
  "xs \<noteq> [] \<Longrightarrow> \<forall>x \<in> set xs. sep \<notin> set x \<Longrightarrow> split sep (join [sep] xs) = xs"
proof (induction "[sep]" xs rule: join.induct)
  case 1
  then show ?case by simp
next
  case (2 x)
  then show ?case by (simp add: split_def split_from_no_sep)
next
  case (3 x y ys)
  then have "split sep (join [sep] (y # ys)) = y # ys" by simp
  moreover have "sep \<notin> set x" using 3 by simp
  ultimately show ?case by (simp add: split_def split_from_field)
qed

lemma apply_rows_total:
  "\<forall>r \<in> set rows. f r = Inr (h r) \<Longrightarrow> apply_rows f rows = Inr (map h rows)"
  by (induction rows) simp_all

lemma map2_map: "map2 F xs (map h xs) = map (\<lambda>x. F x (h x)) xs"
  by (induction xs) simp_all

lemma top_table_no_rows: "top_rows st = [] \<Longrightarrow> top_table iter st = Inl PandasValueError"
  by (simp add: top_table_def apply_axis1_def set_intersect_def Let_def)

lemma top_table_rows:
  assumes "top_rows st \<noteq> []"
    and "\<forall>r \<in> set (top_rows st). intersect st (fst r) = Some (f (fst r))"
  shows "top_table iter st
     = Inr (map (\<lambda>(k, jv, p, q). (k, jv, p, q, join '','' (iter k (f k)))) (top_rows st))"
proof -
  let ?h = "\<lambda>r. join '','' (iter (fst r) (f (fst r)))"
  have "\<forall>r \<in> set (top_rows st). intersect_genes iter (intersect st) r = Inr (?h r)"
    using assms(2) by (auto simp: intersect_genes_def)
  then have "apply_rows (intersect_genes iter (intersect st)) (top_rows st)
      = Inr (map ?h (top_rows st))"
    by (rule apply_rows_total)
  then have "top_table iter st
      = Inr (map2 (\<lambda>(k, jv, p, q) g. (k, jv, p, q, g)) (top_rows st) (map ?h (top_rows st)))"
    using assms(1) by (simp add: top_table_def apply_axis1_def set_intersect_def Let_def)
  then have "top_table iter st
      = Inr (map (\<lambda>r. (\<lambda>(k, jv, p, q) g. (k, jv, p, q, g)) r (?h r)) (top_rows st))"
    by (simp only: map2_map)
  then show ?thesis by (simp add: case_prod_unfold)
qed

lemma product_no_columns: "List.product xs [] = []"
  by (induction xs) simp_all

lemma top_rows_no_pairs:
  "index (jaccard st) = [] \<or> columns (jaccard st) = [] \<Longrightarrow> top_rows st = []"
  by (auto simp: top_rows_def jtop_eq concat_axis1_def product_no_columns)

lemma top_table_no_pairs:
  assumes "overlap_loop pvalue ds1 ds2 = Inr st" and "ds1 = [] \<or> ds2 = []"
  shows "top_table iter st = Inl PandasValueError"
proof -
  have "index (jaccard st) = [] \<or> columns (jaccard st) = []"
    using overlap_loop_frames [OF assms(1)] assms(2) by (auto simp: keys_def)
  then have "top_rows st = []" by (rule top_rows_no_pairs)
  then show ?thesis by (rule top_table_no_rows)
qed

section \<open>The worked run, evaluated\<close>

lemma example_run: "overlap_loop example_pvalue example_ds1 example_ds2 = Inr example_state"
  by (simp add: overlap_loop_def pair_step_def contingency_counts true_div_def fcard.rep_eq
      keys_def DataFrame0_def loc_set_def example_ds1_def example_ds2_def example_pvalue_def
      example_state_def)

lemma example_ranks:
  "rank [1 / 2, 1 / 4, 1 / 2] (1 / 2) = 5 / 2" "rank [1 / 2, 1 / 4, 1 / 2] (1 / 4) = 1"
  by (simp_all add: rank_def places_def)

lemma example_ftop:
  "ftop (fisherp example_state)
     = [((''u'', ''t''), 1 / 2, 3 / 5), ((''w'', ''t''), 1 / 2, 3 / 5),
        ((''s'', ''t''), 1 / 4, 3 / 4)]"
  by (simp add: example_state_def ftop_def stack_def example_ranks Let_def)

lemma example_jtop:
  "jtop (jaccard example_state)
     = [((''u'', ''t''), 1 / 2), ((''w'', ''t''), 1 / 2), ((''s'', ''t''), 1 / 3)]"
  by (simp add: example_state_def jtop_def stack_def)

lemma example_top_rows:
  "top_rows example_state
     = [((''u'', ''t''), 1 / 2, 1 / 2, 3 / 5), ((''w'', ''t''), 1 / 2, 1 / 2, 3 / 5),
        ((''s'', ''t''), 1 / 3, 1 / 4, 3 / 4)]"
  by (simp add: top_rows_def example_ftop example_jtop concat_axis1_def less_eq_prod_def)

lemma example_order:
  "\<forall>k s. intersect example_state k = Some s
     \<longrightarrow> distinct (example_iter k s) \<and> set (example_iter k s) = fset s"
  by (auto simp: example_state_def example_iter_def split: if_splits)

lemma example_top_table:
  "top_table example_iter example_state
     = Inr [((''u'', ''t''), 1 / 2, 1 / 2, 3 / 5, ''B''),
            ((''w'', ''t''), 1 / 2, 1 / 2, 3 / 5, ''C''),
            ((''s'', ''t''), 1 / 3, 1 / 4, 3 / 4, ''C,B'')]"
  unfolding top_table_def example_top_rows Let_def
  by (simp add: apply_axis1_def intersect_genes_def set_intersect_def example_iter_def
      example_state_def)

text \<open>
  Claim C7. After a completed run of the pairwise loop, the table \<open>ftop\<close> has one row
  for every pair of a term of the first library and a term of the second. The row of a
  pair holds the pair's p-value \<open>p\<close> and \<open>q = p * N / rank(p)\<close>, where \<open>N\<close> is the number
  of pairs and \<open>rank(p)\<close> is the rank of \<open>p\<close> among the p-values of all pairs in
  ascending order: with \<open>b\<close> pairs whose p-value is below \<open>p\<close> and \<open>m\<close> pairs whose
  p-value is at most \<open>p\<close>, the pairs with the p-value \<open>p\<close> stand in the places \<open>b + 1\<close> to
  \<open>m\<close> and share the average \<open>(b + 1 + m) / 2\<close> of these places. The rows are in ascending
  order of \<open>q\<close>.
\<close>

theorem ftop_q_values_sorted:
  assumes run: "overlap_loop pvalue ds1 ds2 = Inr st"
  shows "mset (map fst (ftop (fisherp st))) = mset (List.product (keys ds1) (keys ds2))
    \<and> (\<forall>(k, p, q) \<in> set (ftop (fisherp st)).
          p = cells (fisherp st) k
          \<and> q = p * of_nat (length ds1 * length ds2)
                  / ((of_nat (length (filter (\<lambda>k'. cells (fisherp st) k' < p)
                                   (List.product (keys ds1) (keys ds2)))) + 1
                      + of_nat (length (filter (\<lambda>k'. cells (fisherp st) k' \<le> p)
                                   (List.product (keys ds1) (keys ds2))))) / 2))
    \<and> sorted (map (\<lambda>(k, p, q). q) (ftop (fisherp st)))"
proof -
  let ?F = "fisherp st"
  let ?P = "List.product (keys ds1) (keys ds2)"
  have idx: "index ?F = keys ds1" and cols: "columns ?F = keys ds2"
    using overlap_loop_frames [OF run] by simp_all
  have a: "mset (map fst (ftop ?F)) = mset ?P"
    using ftop_keys [of ?F] by (simp add: idx cols)
  have b: "p = cells ?F k
          \<and> q = p * of_nat (length ds1 * length ds2)
                  / ((of_nat (length (filter (\<lambda>k'. cells ?F k' < p) ?P)) + 1
                      + of_nat (length (filter (\<lambda>k'. cells ?F k' \<le> p) ?P))) / 2)"
    if "(k, p, q) \<in> set (ftop ?F)" for k p q
  proof -
    from ftop_rows [OF that]
    have k: "k \<in> set ?P" and p: "p = cells ?F k" and q: "q = q_value ?F k"
      by (simp_all add: idx cols)
    have "p \<in> set (map (cells ?F) ?P)"
      using k p by simp
    then have "rank (map (cells ?F) ?P) p
        = (of_nat (length (filter (\<lambda>x. x < p) (map (cells ?F) ?P))) + 1
            + of_nat (length (filter (\<lambda>x. x \<le> p) (map (cells ?F) ?P)))) / 2"
      by (rule rank_counts)
    then have r: "rank (map (cells ?F) ?P) p
        = (of_nat (length (filter (\<lambda>k'. cells ?F k' < p) ?P)) + 1
            + of_nat (length (filter (\<lambda>k'. cells ?F k' \<le> p) ?P))) / 2"
      by (simp add: filter_map comp_def)
    have "q = p * of_nat (length ds1 * length ds2) / rank (map (cells ?F) ?P) p"
      using p q by (simp add: q_value_def idx cols keys_def)
    then have "q = p * of_nat (length ds1 * length ds2)
                  / ((of_nat (length (filter (\<lambda>k'. cells ?F k' < p) ?P)) + 1
                      + of_nat (length (filter (\<lambda>k'. cells ?F k' \<le> p) ?P))) / 2)"
      by (simp only: r)
    with p show ?thesis by (rule conjI)
  qed
  have c: "sorted (map (\<lambda>(k, p, q). q) (ftop ?F))"
    by (rule ftop_sorted)
  show ?thesis using a b c by blast
qed

theorem ftop_q_values_sorted_witness:
  "overlap_loop example_pvalue example_ds1 example_ds2 = Inr example_state
   \<and> ftop (fisherp example_state)
       = [((''u'', ''t''), 1 / 2, 3 / 5), ((''w'', ''t''), 1 / 2, 3 / 5),
          ((''s'', ''t''), 1 / 4, 3 / 4)]
   \<and> mset (map fst (ftop (fisherp example_state)))
       = mset (List.product (keys example_ds1) (keys example_ds2))
   \<and> sorted (map (\<lambda>(k, p, q). q) (ftop (fisherp example_state)))"
  using ftop_q_values_sorted [OF example_run] example_run example_ftop by blast

text \<open>The top-association table when there is at least one pair.\<close>

lemma top_table_with_pairs:
  assumes d1: "distinct (keys ds1)" and d2: "distinct (keys ds2)"
    and ne: "ds1 \<noteq> []" "ds2 \<noteq> []"
    and run: "overlap_loop pvalue ds1 ds2 = Inr st"
    and order: "\<forall>k s. intersect st k = Some s \<longrightarrow> distinct (iter k s) \<and> set (iter k s) = fset s"
  shows "\<exists>rows ranked.
      top_table iter st = Inr rows
      \<and> map (\<lambda>(k, jv, p, q, g). (k, jv, p, q)) rows = take 1000 ranked
      \<and> mset (map fst ranked) = mset (List.product (keys ds1) (keys ds2))
      \<and> sorted_wrt ranks_before ranked
      \<and> (\<forall>(k, jv, p, q) \<in> set ranked.
            jv = cells (jaccard st) k \<and> (k, p, q) \<in> set (ftop (fisherp st)))
      \<and> (\<forall>((i, j), jv, p, q, g) \<in> set rows.
            \<exists>iset jset genes.
              map_of ds1 i = Some iset \<and> map_of ds2 j = Some jset
              \<and> distinct genes \<and> set genes = fset (iset |\<inter>| jset)
              \<and> g = join '','' genes
              \<and> (genes = [] \<longrightarrow> g = [])
              \<and> (genes \<noteq> [] \<and> (\<forall>x \<in> set genes. CHR '','' \<notin> set x)
                    \<longrightarrow> split CHR '','' g = genes))"
proof -
  let ?J = "jaccard st" and ?F = "fisherp st"
  let ?P = "List.product (keys ds1) (keys ds2)"
  let ?pq = "\<lambda>k. (cells ?F k, q_value ?F k)"
  let ?key = "\<lambda>(k, jv, p, q). (- jv, q)"
  let ?joined = "map (\<lambda>(k, jv). (k, jv, ?pq k)) (jtop ?J)"
  let ?ranked = "sort_key ?key ?joined"
  let ?f = "\<lambda>(i, j). the (map_of ds1 i) |\<inter>| the (map_of ds2 j)"
  have fr: "index ?J = keys ds1" "columns ?J = keys ds2"
    "index ?F = keys ds1" "columns ?F = keys ds2"
    using overlap_loop_frames [OF run] by simp_all
  have fd: "distinct (map fst (ftop ?F))"
    by (rule ftop_distinct) (simp_all add: fr d1 d2)
  have "\<forall>(k, jv) \<in> set (jtop ?J). (k, ?pq k) \<in> set (ftop ?F)"
  proof clarify
    fix i j jv assume "((i, j), jv) \<in> set (jtop ?J)"
    then have "(i, j) \<in> set (List.product (index ?F) (columns ?F))"
      using jtop_rows [of "((i, j), jv)" ?J] by (simp add: fr)
    then show "((i, j), ?pq (i, j)) \<in> set (ftop ?F)" by (rule ftop_complete)
  qed
  then have joined: "concat_axis1 (jtop ?J) (ftop ?F) = ?joined"
    by (rule concat_axis1_total [OF fd])
  have tr: "top_rows st = take 1000 ?ranked"
    by (simp add: top_rows_def joined)
  have keys_joined: "map fst ?joined = map fst (jtop ?J)"
    by (simp add: comp_def case_prod_unfold)
  have "mset ?ranked = mset ?joined" by simp
  then have "image_mset fst (mset ?ranked) = image_mset fst (mset ?joined)" by (rule arg_cong)
  then have "mset (map fst ?ranked) = mset (map fst ?joined)" by (simp only: mset_map)
  then have a: "mset (map fst ?ranked) = mset ?P"
    using jtop_keys [of ?J] by (simp only: keys_joined fr)
  have b: "sorted_wrt ranks_before ?ranked"
    by (rule sorted_ranks_before) (rule sorted_sort_key)
  have c: "jv = cells ?J k \<and> (k, p, q) \<in> set (ftop ?F)" if "(k, jv, p, q) \<in> set ?ranked" for k jv p q
  proof -
    from that have m: "(k, jv) \<in> set (jtop ?J)" and pq: "(p, q) = ?pq k" by auto
    from jtop_rows [OF m] have k: "k \<in> set (List.product (index ?F) (columns ?F))"
      and jv: "jv = cells ?J k" by (simp_all add: fr)
    from ftop_complete [OF k] pq show ?thesis using jv by simp
  qed
  have inP: "fst r \<in> set ?P" if "r \<in> set ?ranked" for r
  proof -
    have "fst r \<in> set (map fst ?ranked)" using that by simp
    then have "fst r \<in># mset (map fst ?ranked)" by (simp only: set_mset_mset)
    then show ?thesis by (simp only: a set_mset_mset)
  qed
  have pne: "?P \<noteq> []"
  proof
    obtain i where "i \<in> set (keys ds1)" using ne(1) by (cases ds1) (auto simp: keys_def)
    moreover obtain j where "j \<in> set (keys ds2)" using ne(2) by (cases ds2) (auto simp: keys_def)
    ultimately have pm: "(i, j) \<in> set ?P" by simp
    assume e: "?P = []"
    from pm show False unfolding e by simp
  qed
  have "?ranked \<noteq> []"
  proof
    assume "?ranked = []"
    then have "map fst ?ranked = []" by (simp only: list.map)
    then have "mset (map fst ?ranked) = {#}" by (simp only: mset.simps)
    then have "mset ?P = {#}" by (simp only: a)
    then show False using pne by simp
  qed
  then have rows_ne: "top_rows st \<noteq> []" by (simp add: tr)
  have isect: "intersect st (i, j) = Some (?f (i, j))
      \<and> (\<exists>iset jset. map_of ds1 i = Some iset \<and> map_of ds2 j = Some jset \<and> ?f (i, j) = iset |\<inter>| jset)"
    if "(i, j) \<in> set ?P" for i j
  proof -
    from that have "i \<in> set (keys ds1)" "j \<in> set (keys ds2)" by simp_all
    then obtain iset jset where i: "map_of ds1 i = Some iset" "(i, iset) \<in> set ds1"
      and j: "map_of ds2 j = Some jset" "(j, jset) \<in> set ds2"
      using map_of_member [OF d1] map_of_member [OF d2] by blast
    have "computed_at pvalue (genes_count ds1 ds2) st (i, iset) (j, jset)"
      by (rule overlap_loop_computed [OF run d1 d2 i(2) j(2)])
    then have "intersect st (i, j) = Some (iset |\<inter>| jset)"
      by (simp add: computed_at_def split: prod.splits)
    then show ?thesis using i(1) j(1) by simp
  qed
  have "\<forall>r \<in> set (top_rows st). intersect st (fst r) = Some (?f (fst r))"
  proof
    fix r assume "r \<in> set (top_rows st)"
    then have "r \<in> set ?ranked" unfolding tr by (rule in_set_takeD)
    then have "fst r \<in> set ?P" by (rule inP)
    then show "intersect st (fst r) = Some (?f (fst r))"
      using isect [of "fst (fst r)" "snd (fst r)"] by simp
  qed
  then have t: "top_table iter st
      = Inr (map (\<lambda>(k, jv, p, q). (k, jv, p, q, join '','' (iter k (?f k)))) (take 1000 ?ranked))"
    using top_table_rows [OF rows_ne, of ?f iter] by (simp only: tr)
  let ?rows = "map (\<lambda>(k, jv, p, q). (k, jv, p, q, join '','' (iter k (?f k)))) (take 1000 ?ranked)"
  have e: "map (\<lambda>(k, jv, p, q, g). (k, jv, p, q)) ?rows = take 1000 ?ranked"
    by (simp add: comp_def case_prod_unfold)
  have g: "\<exists>iset jset genes.
              map_of ds1 i = Some iset \<and> map_of ds2 j = Some jset
              \<and> distinct genes \<and> set genes = fset (iset |\<inter>| jset)
              \<and> g = join '','' genes
              \<and> (genes = [] \<longrightarrow> g = [])
              \<and> (genes \<noteq> [] \<and> (\<forall>x \<in> set genes. CHR '','' \<notin> set x)
                    \<longrightarrow> split CHR '','' g = genes)"
    if "((i, j), jv, p, q, g) \<in> set ?rows" for i j jv p q g
  proof -
    from that obtain r where r: "r \<in> set (take 1000 ?ranked)"
      and eq: "((i, j), jv, p, q, g) = (\<lambda>(k, jv, p, q). (k, jv, p, q, join '','' (iter k (?f k)))) r"
      by auto
    from r have "r \<in> set ?ranked" by (rule in_set_takeD)
    then have "fst r \<in> set ?P" by (rule inP)
    moreover from eq have "fst r = (i, j)" and gg: "g = join '','' (iter (i, j) (?f (i, j)))"
      by (auto simp: case_prod_unfold)
    ultimately have "(i, j) \<in> set ?P" by simp
    from isect [OF this] obtain iset jset where st: "intersect st (i, j) = Some (iset |\<inter>| jset)"
      and i: "map_of ds1 i = Some iset" and j: "map_of ds2 j = Some jset"
      and f: "?f (i, j) = iset |\<inter>| jset"
      by auto
    let ?genes = "iter (i, j) (iset |\<inter>| jset)"
    have en1: "distinct ?genes" and en2: "set ?genes = fset (iset |\<inter>| jset)"
      using order st by simp_all
    have gj: "g = join '','' ?genes" using gg f by simp
    have g0: "?genes = [] \<longrightarrow> g = []" using gj by simp
    have g1: "?genes \<noteq> [] \<and> (\<forall>x \<in> set ?genes. CHR '','' \<notin> set x) \<longrightarrow> split CHR '','' g = ?genes"
      using split_join [of ?genes "CHR '',''"] gj by simp
    show ?thesis
      apply (rule exI [of _ iset], rule exI [of _ jset], rule exI [of _ ?genes])
      apply (intro conjI)
            apply (rule i)
           apply (rule j)
          apply (rule en1)
         apply (rule en2)
        apply (rule gj)
       apply (rule g0)
      apply (rule g1)
      done
  qed
  show ?thesis
  proof (rule exI [of _ ?rows], rule exI [of _ ?ranked], intro conjI)
    show "top_table iter st = Inr ?rows" by (rule t)
    show "map (\<lambda>(k, jv, p, q, g). (k, jv, p, q)) ?rows = take 1000 ?ranked" by (rule e)
    show "mset (map fst ?ranked) = mset ?P" by (rule a)
    show "sorted_wrt ranks_before ?ranked" by (rule b)
    show "\<forall>(k, jv, p, q) \<in> set ?ranked. jv = cells ?J k \<and> (k, p, q) \<in> set (ftop ?F)"
      using c by blast
    show "\<forall>((i, j), jv, p, q, g) \<in> set ?rows.
            \<exists>iset jset genes.
              map_of ds1 i = Some iset \<and> map_of ds2 j = Some jset
              \<and> distinct genes \<and> set genes = fset (iset |\<inter>| jset)
              \<and> g = join '','' genes
              \<and> (genes = [] \<longrightarrow> g = [])
              \<and> (genes \<noteq> [] \<and> (\<forall>x \<in> set genes. CHR '','' \<notin> set x)
                    \<longrightarrow> split CHR '','' g = genes)"
    proof clarify
      fix i j jv p q g
      assume "((i, j), jv, p, q, g) \<in> set ?rows"
      then show "\<exists>iset jset genes.
              map_of ds1 i = Some iset \<and> map_of ds2 j = Some jset
              \<and> distinct genes \<and> set genes = fset (iset |\<inter>| jset)
              \<and> g = join '','' genes
              \<and> (genes = [] \<longrightarrow> g = [])
              \<and> (genes \<noteq> [] \<and> (\<forall>x \<in> set genes. CHR '','' \<notin> set x)
                    \<longrightarrow> split CHR '','' g = genes)"
        by (rule g)
    qed
  qed
qed

section \<open>The top-association table\<close>

text \<open>
  Claim C8, as the claim states it, fails when there is no pair: with a first library
  of one gene set and an empty second library the loop completes, and the cell that
  builds \<open>top\<close> raises \<^verbatim>\<open>ValueError\<close>, so there is no table.
\<close>

theorem top_table_raises_without_pairs:
  "overlap_loop example_pvalue [(''s'', {|''A''|})] []
     = Inr \<lparr>jaccard = DataFrame0 [''s''] [], fisherp = DataFrame0 [''s''] [],
            intersect = Map.empty\<rparr>
   \<and> top_table example_iter
        \<lparr>jaccard = DataFrame0 [''s''] [], fisherp = DataFrame0 [''s''] [],
         intersect = Map.empty\<rparr> = Inl PandasValueError"
proof -
  have r: "overlap_loop example_pvalue [(''s'', {|''A''|})] []
     = Inr \<lparr>jaccard = DataFrame0 [''s''] [], fisherp = DataFrame0 [''s''] [],
            intersect = Map.empty\<rparr>"
    by (simp add: overlap_loop_def keys_def)
  have "top_table example_iter
        \<lparr>jaccard = DataFrame0 [''s''] [], fisherp = DataFrame0 [''s''] [],
         intersect = Map.empty\<rparr> = Inl PandasValueError"
    by (rule top_table_no_pairs [OF r]) simp
  with r show ?thesis by simp
qed

text \<open>
  Claim C8, amended. After a completed run of the pairwise loop over two libraries
  (dictionaries, so their keys are distinct): if a library is empty, so that there is no
  pair, the cell that builds \<open>top\<close> raises \<^verbatim>\<open>ValueError\<close>; otherwise it raises nothing and
  its rows are the first 1000 of a ranking of all pairs, one row per pair, in which a
  row comes before another only if its Jaccard value is greater, or equal with a
  q-value at most the other's; a row holds the pair's Jaccard cell and the pair's p and
  q of \<open>ftop\<close>; and a row is annotated with the genes of the intersection of the pair's
  two gene sets, each once, in the order in which the stored set is iterated, joined by
  commas: the annotation is empty for an empty intersection, and when no gene contains
  a comma, splitting it at the commas gives the genes back.
\<close>

theorem top_table_ranked_truncated_annotated:
  assumes d1: "distinct (keys ds1)" and d2: "distinct (keys ds2)"
    and run: "overlap_loop pvalue ds1 ds2 = Inr st"
    and order: "\<forall>k s. intersect st k = Some s \<longrightarrow> distinct (iter k s) \<and> set (iter k s) = fset s"
  shows "(ds1 = [] \<or> ds2 = [] \<longrightarrow> top_table iter st = Inl PandasValueError)
    \<and> (ds1 \<noteq> [] \<and> ds2 \<noteq> [] \<longrightarrow>
        (\<exists>rows ranked.
          top_table iter st = Inr rows
          \<and> map (\<lambda>(k, jv, p, q, g). (k, jv, p, q)) rows = take 1000 ranked
          \<and> mset (map fst ranked) = mset (List.product (keys ds1) (keys ds2))
          \<and> sorted_wrt ranks_before ranked
          \<and> (\<forall>(k, jv, p, q) \<in> set ranked.
                jv = cells (jaccard st) k \<and> (k, p, q) \<in> set (ftop (fisherp st)))
          \<and> (\<forall>((i, j), jv, p, q, g) \<in> set rows.
                \<exists>iset jset genes.
                  map_of ds1 i = Some iset \<and> map_of ds2 j = Some jset
                  \<and> distinct genes \<and> set genes = fset (iset |\<inter>| jset)
                  \<and> g = join '','' genes
                  \<and> (genes = [] \<longrightarrow> g = [])
                  \<and> (genes \<noteq> [] \<and> (\<forall>x \<in> set genes. CHR '','' \<notin> set x)
                        \<longrightarrow> split CHR '','' g = genes))))"
proof (intro conjI impI)
  assume "ds1 = [] \<or> ds2 = []"
  then show "top_table iter st = Inl PandasValueError"
    by (rule top_table_no_pairs [OF run])
next
  assume "ds1 \<noteq> [] \<and> ds2 \<noteq> []"
  then have ne1: "ds1 \<noteq> []" and ne2: "ds2 \<noteq> []" by simp_all
  show "\<exists>rows ranked.
          top_table iter st = Inr rows
          \<and> map (\<lambda>(k, jv, p, q, g). (k, jv, p, q)) rows = take 1000 ranked
          \<and> mset (map fst ranked) = mset (List.product (keys ds1) (keys ds2))
          \<and> sorted_wrt ranks_before ranked
          \<and> (\<forall>(k, jv, p, q) \<in> set ranked.
                jv = cells (jaccard st) k \<and> (k, p, q) \<in> set (ftop (fisherp st)))
          \<and> (\<forall>((i, j), jv, p, q, g) \<in> set rows.
                \<exists>iset jset genes.
                  map_of ds1 i = Some iset \<and> map_of ds2 j = Some jset
                  \<and> distinct genes \<and> set genes = fset (iset |\<inter>| jset)
                  \<and> g = join '','' genes
                  \<and> (genes = [] \<longrightarrow> g = [])
                  \<and> (genes \<noteq> [] \<and> (\<forall>x \<in> set genes. CHR '','' \<notin> set x)
                        \<longrightarrow> split CHR '','' g = genes))"
    by (rule top_table_with_pairs [OF d1 d2 ne1 ne2 run order])
qed

theorem top_table_ranked_truncated_annotated_witness:
  "distinct (keys example_ds1) \<and> distinct (keys example_ds2)
   \<and> example_ds1 \<noteq> [] \<and> example_ds2 \<noteq> []
   \<and> overlap_loop example_pvalue example_ds1 example_ds2 = Inr example_state
   \<and> top_table example_iter example_state
       = Inr [((''u'', ''t''), 1 / 2, 1 / 2, 3 / 5, ''B''),
              ((''w'', ''t''), 1 / 2, 1 / 2, 3 / 5, ''C''),
              ((''s'', ''t''), 1 / 3, 1 / 4, 3 / 4, ''C,B'')]
   \<and> split CHR '','' ''C,B'' = [''C'', ''B'']
   \<and> (\<exists>rows ranked.
         top_table example_iter example_state = Inr rows
         \<and> map (\<lambda>(k, jv, p, q, g). (k, jv, p, q)) rows = take 1000 ranked
         \<and> mset (map fst ranked) = mset (List.product (keys example_ds1) (keys example_ds2))
         \<and> sorted_wrt ranks_before ranked)"
proof -
  have d1: "distinct (keys example_ds1)"
    by (simp add: keys_def example_ds1_def)
  have d2: "distinct (keys example_ds2)"
    by (simp add: keys_def example_ds2_def)
  have ne: "example_ds1 \<noteq> []" "example_ds2 \<noteq> []"
    by (simp_all add: example_ds1_def example_ds2_def)
  have sp: "split CHR '','' ''C,B'' = [''C'', ''B'']"
    by (simp add: split_def)
  from top_table_ranked_truncated_annotated [OF d1 d2 example_run example_order] ne
  have "\<exists>rows ranked.
         top_table example_iter example_state = Inr rows
         \<and> map (\<lambda>(k, jv, p, q, g). (k, jv, p, q)) rows = take 1000 ranked
         \<and> mset (map fst ranked) = mset (List.product (keys example_ds1) (keys example_ds2))
         \<and> sorted_wrt ranks_before ranked"
    by blast
  with d1 d2 ne example_run example_top_table sp show ?thesis by blast
qed

section \<open>Malformed and empty input\<close>

text \<open>
  Claim C5, as the claim states it, fails in both halves. The exception of the
  unpacking is the same \<^verbatim>\<open>ValueError\<close> whichever line is short and wherever it stands, so
  it does not name the line: the short line is \<^verbatim>\<open>BRCA1\<close>, the first line, in one file
  and \<^verbatim>\<open>TP53\<close>, the second line, in the other. And with both libraries empty the
  pairwise loop leaves its tables empty, but the cell that builds \<open>top\<close> raises
  \<^verbatim>\<open>ValueError\<close>.
\<close>

theorem load_gmt_error_unnamed_and_no_table_for_empty_libraries:
  "load_gmt [''BRCA1'']
     = Inl (ValueError ''not enough values to unpack (expected at least 2, got 1)'')
   \<and> load_gmt [''T'' @ tab # ''D'' @ tab # ''G'', ''TP53'']
     = Inl (ValueError ''not enough values to unpack (expected at least 2, got 1)'')
   \<and> overlap_loop example_pvalue [] []
     = Inr \<lparr>jaccard = DataFrame0 [] [], fisherp = DataFrame0 [] [], intersect = Map.empty\<rparr>
   \<and> top_table example_iter
        \<lparr>jaccard = DataFrame0 [] [], fisherp = DataFrame0 [] [], intersect = Map.empty\<rparr>
     = Inl PandasValueError"
proof -
  have r: "overlap_loop example_pvalue [] []
     = Inr \<lparr>jaccard = DataFrame0 [] [], fisherp = DataFrame0 [] [], intersect = Map.empty\<rparr>"
    by (simp add: overlap_loop_def keys_def)
  have t: "top_table example_iter
        \<lparr>jaccard = DataFrame0 [] [], fisherp = DataFrame0 [] [], intersect = Map.empty\<rparr>
     = Inl PandasValueError"
    by (rule top_table_no_pairs [OF r]) simp
  have "load_gmt [''BRCA1'']
     = Inl (ValueError ''not enough values to unpack (expected at least 2, got 1)'')
   \<and> load_gmt [''T'' @ tab # ''D'' @ tab # ''G'', ''TP53'']
     = Inl (ValueError ''not enough values to unpack (expected at least 2, got 1)'')"
    by (simp add: load_gmt_def line_eval dict_set_def)
  with r t show ?thesis by simp
qed

text \<open>
  Claim C5, amended. If some line has fewer than two tab-separated fields once its
  surrounding whitespace is stripped, \<^verbatim>\<open>load_gmt\<close> returns no library: it raises the
  \<^verbatim>\<open>ValueError\<close> of the unpacking, whose message is fixed and does not name the line.
  When both libraries are empty, the pairwise loop raises nothing and leaves the
  Jaccard table, the p-value table and the intersections empty, and the cell that
  builds the top-association table raises \<^verbatim>\<open>ValueError\<close>.
\<close>

theorem load_gmt_malformed_raises_and_empty_libraries:
  "((\<exists>line \<in> set lns. length (split_line line) < 2) \<longrightarrow>
      load_gmt lns = Inl (ValueError ''not enough values to unpack (expected at least 2, got 1)''))
   \<and> overlap_loop pvalue [] []
       = Inr \<lparr>jaccard = DataFrame0 [] [], fisherp = DataFrame0 [] [], intersect = Map.empty\<rparr>
   \<and> top_table iter
        \<lparr>jaccard = DataFrame0 [] [], fisherp = DataFrame0 [] [], intersect = Map.empty\<rparr>
       = Inl PandasValueError"
proof -
  have r: "overlap_loop pvalue [] []
     = Inr \<lparr>jaccard = DataFrame0 [] [], fisherp = DataFrame0 [] [], intersect = Map.empty\<rparr>"
    by (simp add: overlap_loop_def keys_def)
  have t: "top_table iter
        \<lparr>jaccard = DataFrame0 [] [], fisherp = DataFrame0 [] [], intersect = Map.empty\<rparr>
     = Inl PandasValueError"
    by (rule top_table_no_pairs [OF r]) simp
  show ?thesis using r t by (simp add: load_gmt_def load_gmt_loop_malformed)
qed

theorem load_gmt_malformed_raises_and_empty_libraries_witness:
  "length (split_line ''TP53'') < 2
   \<and> load_gmt [''T'' @ tab # ''D'' @ tab # ''G'', ''TP53'']
       = Inl (ValueError ''not enough values to unpack (expected at least 2, got 1)'')
   \<and> overlap_loop example_pvalue [] []
       = Inr \<lparr>jaccard = DataFrame0 [] [], fisherp = DataFrame0 [] [], intersect = Map.empty\<rparr>
   \<and> top_table example_iter
        \<lparr>jaccard = DataFrame0 [] [], fisherp = DataFrame0 [] [], intersect = Map.empty\<rparr>
       = Inl PandasValueError"
proof -
  have short: "length (split_line ''TP53'') < 2"
    by (simp add: line_eval)
  then have "\<exists>line \<in> set [''T'' @ tab # ''D'' @ tab # ''G'', ''TP53'']. length (split_line line) < 2"
    by simp
  with load_gmt_malformed_raises_and_empty_libraries
         [of "[''T'' @ tab # ''D'' @ tab # ''G'', ''TP53'']" example_pvalue example_iter]
  show ?thesis using short by blast
qed

end
